theory Spec2Isabelle
  imports Complex_Main "HOL-Library.Word"
begin

section \<open>Data model of the shared plan cache\<close>

text \<open>
  The development embeds the cache engine of \<^verbatim>\<open>pg_shared_plans.c\<close> and
  \<^verbatim>\<open>pgsp_utility.c\<close>.  C \<^verbatim>\<open>double\<close> values (\<^verbatim>\<open>Cost\<close>, \<^verbatim>\<open>usage\<close>,
  \<^verbatim>\<open>plantime\<close>) are modelled as exact reals, so every statement about them is a statement
  about the arithmetic the code writes down, not about IEEE rounding.  The 64-bit counters
  \<^verbatim>\<open>bypass\<close>, \<^verbatim>\<open>discard\<close> and \<^verbatim>\<open>num_custom_plans\<close> are integers (they would need
  \<open>2 ^ 63\<close> increments to overflow); the atomic \<^verbatim>\<open>lockers\<close> is a 32-bit word, whose
  subtraction wraps as \<^verbatim>\<open>pg_atomic_fetch_sub_u32\<close> does.
\<close>

type_synonym Oid = "32 word"
type_synonym dsa_pointer = nat

definition InvalidDsaPointer :: dsa_pointer where
  "InvalidDsaPointer = 0"

definition InvalidOid :: Oid where
  "InvalidOid = 0"

record pgspHashKey =
  userid :: Oid
  dbid :: Oid
  queryid :: "64 word"
  constid :: "32 word"

record pgspEntry =
  key :: pgspHashKey
  len :: nat
  plan :: dsa_pointer
  num_rels :: nat
  rels :: dsa_pointer
  num_rdeps :: nat
  rdeps :: dsa_pointer
  num_const :: int
  plantime :: real
  generic_cost :: real
  discard :: int
  lockers :: "32 word"
  bypass :: int
  usage :: real
  total_custom_cost :: real
  num_custom_plans :: int

section \<open>Machine arithmetic\<close>

text \<open>
  The value a 32-bit \<^verbatim>\<open>int\<close> holds after an arithmetic result or a wider integer is
  stored in it (PostgreSQL is compiled with \<^verbatim>\<open>-fwrapv\<close>), and C's integer division, which
  truncates toward zero.
\<close>

definition wrap_int32 :: "int \<Rightarrow> int" where
  "wrap_int32 x = (x + 2147483648) mod 4294967296 - 2147483648"

definition c_div :: "int \<Rightarrow> int \<Rightarrow> int" where
  "c_div a b = sgn a * sgn b * (\<bar>a\<bar> div \<bar>b\<bar>)"

section \<open>Arbitration\<close>

text \<open>
  \<^verbatim>\<open>pgsp_choose_cache_plan(entry, &accum_custom_stats)\<close>: the entry is updated in place under
  its spinlock; the model returns the updated entry, the result \<^verbatim>\<open>use_cached\<close> and the
  value of \<^verbatim>\<open>*accum_custom_stats\<close> after the call (the argument is its value before).
\<close>

definition pgsp_choose_cache_plan ::
  "int \<Rightarrow> pgspEntry \<Rightarrow> bool \<Rightarrow> pgspEntry \<times> bool \<times> bool" where
  "pgsp_choose_cache_plan pgsp_threshold e accum_custom_stats =
     (if num_custom_plans e \<ge> pgsp_threshold then
        (let avg = total_custom_cost e / real_of_int (num_custom_plans e);
             use_cached = (generic_cost e < avg)
         in if use_cached
            then (e\<lparr>bypass := bypass e + 1, usage := usage e + plantime e\<rparr>,
                  use_cached, accum_custom_stats)
            else (e, use_cached, accum_custom_stats))
      else (e\<lparr>usage := usage e + plantime e\<rparr>, False, True))"


section \<open>Shared memory: the arena, the reverse index and the entry store\<close>

text \<open>
  The DSA arena is a list of live blocks \<open>(pointer, size, content)\<close>.  An allocation with
  \<^verbatim>\<open>DSA_ALLOC_NO_OOM\<close> returns \<^verbatim>\<open>InvalidDsaPointer\<close> when the pool cannot hold the block;
  the copy into the fresh block that follows every successful allocation in the source is
  folded into the allocation.  Reading through a pointer that is not live is undefined in C;
  the model reads an empty array there.
\<close>

datatype cache_id = RELOID | TYPEOID | PROCOID | OTHERCACHE nat

type_synonym pgspRdependKey = "Oid \<times> cache_id \<times> Oid"

datatype blob = PlanBlob string | OidArray "Oid list" | RdependArray "pgspRdependKey list"

record dsa_area =
  cells :: "(dsa_pointer \<times> nat \<times> blob) list"
  next_pointer :: dsa_pointer
  capacity :: nat

definition dsa_used :: "dsa_area \<Rightarrow> nat" where
  "dsa_used a = sum_list (map (\<lambda>c. fst (snd c)) (cells a))"

definition dsa_allocate_extended :: "dsa_area \<Rightarrow> nat \<Rightarrow> blob \<Rightarrow> dsa_area \<times> dsa_pointer" where
  "dsa_allocate_extended a sz content =
     (if dsa_used a + sz > capacity a then (a, InvalidDsaPointer)
      else (let p = Suc (next_pointer a)
            in (a\<lparr>cells := cells a @ [(p, sz, content)], next_pointer := p\<rparr>, p)))"

definition dsa_free :: "dsa_area \<Rightarrow> dsa_pointer \<Rightarrow> dsa_area" where
  "dsa_free a p = a\<lparr>cells := filter (\<lambda>c. fst c \<noteq> p) (cells a)\<rparr>"

definition dsa_get_address :: "dsa_area \<Rightarrow> dsa_pointer \<Rightarrow> blob option" where
  "dsa_get_address a p = map_option snd (map_of (cells a) p)"

definition oid_array :: "dsa_area \<Rightarrow> dsa_pointer \<Rightarrow> Oid list" where
  "oid_array a p = (case dsa_get_address a p of Some (OidArray xs) \<Rightarrow> xs | _ \<Rightarrow> [])"

definition rdepend_array :: "dsa_area \<Rightarrow> dsa_pointer \<Rightarrow> pgspRdependKey list" where
  "rdepend_array a p = (case dsa_get_address a p of Some (RdependArray xs) \<Rightarrow> xs | _ \<Rightarrow> [])"

definition sizeof_Oid :: nat where
  "sizeof_Oid = 4"

definition sizeof_pgspRdependKey :: nat where
  "sizeof_pgspRdependKey = 12"

datatype LWLockMode = LW_EXCLUSIVE | LW_SHARED

text \<open>
  The state seen by one backend: the shared-memory segment (\<^verbatim>\<open>pgsp->...\<close>, the hash
  table in \<^verbatim>\<open>hash_seq_search\<close> order, the arena, the reverse index) and the backend's own
  variables (whether it holds \<^verbatim>\<open>pgsp->lock\<close> and in which mode, \<^verbatim>\<open>pgsp_ro\<close>, whether
  \<^verbatim>\<open>pgsp_area\<close> is attached).
\<close>

record pgsp_state =
  cur_median_usage :: real
  rdepend_num :: int
  alloced_size :: int
  dealloc :: int
  stats_reset :: int
  pgsp_hash :: "pgspEntry list"
  pgsp_area :: dsa_area
  pgsp_rdepend :: "(pgspRdependKey \<times> pgspHashKey list) list"
  lock :: "LWLockMode option"
  pgsp_ro :: bool
  attached :: bool

text \<open>
  Every \<^verbatim>\<open>elog(ERROR)\<close> that the modelled code can reach, with the state in which it
  is raised.  \<open>NeverReturns\<close> stands for a call that does not come back.
\<close>

datatype error =
    LockNotHeld
  | LockAlreadyHeld
  | RdependClassNotHandled cache_id
  | UtilityFailed
  | NeverReturns

type_synonym 'a result = "(error \<times> pgsp_state) + 'a"

definition bind_result :: "'a result \<Rightarrow> ('a \<Rightarrow> 'b result) \<Rightarrow> 'b result" where
  "bind_result r f = (case r of Inl e \<Rightarrow> Inl e | Inr x \<Rightarrow> f x)"


subsection \<open>The host and the configuration\<close>

datatype RTEKind = RTE_RELATION | RTE_SUBQUERY | RTE_JOIN | RTE_FUNCTION | RTE_VALUES | RTE_CTE

record RangeTblEntry =
  rtekind :: RTEKind
  relid :: Oid

record PlanInvalItem =
  cacheId :: cache_id
  hashValue :: "32 word"

record PlannedStmt =
  rtable :: "RangeTblEntry list"
  total_cost :: real
  invalItems :: "PlanInvalItem list"

text \<open>
  A parsed query as the planner hook reads it.  \<^verbatim>\<open>utilityStmt\<close> is whether the pointer is
  non-null; \<^verbatim>\<open>query_dependencies\<close> is the item list that \<^verbatim>\<open>extract_query_dependencies\<close>
  returns for the query.
\<close>

record Query =
  queryId :: "64 word"
  utilityStmt :: bool
  hasRowSecurity :: bool
  query_dependencies :: "PlanInvalItem list"

record pgspWalkerContext =
  walker_constid :: "32 word"
  walker_num_const :: int

text \<open>
  What the PostgreSQL server provides.  \<^verbatim>\<open>planner\<close> is \<^verbatim>\<open>prev_planner_hook\<close> when one is
  installed and \<^verbatim>\<open>standard_planner\<close> otherwise; its Boolean argument is whether
  \<^verbatim>\<open>boundParams\<close> is non-null.  \<^verbatim>\<open>query_walker\<close> is the result of \<^verbatim>\<open>pgsp_query_walker\<close>
  on the parse tree, which needs the server's tree walker and catalogs.  \<^verbatim>\<open>others\<close> is what
  the other backends did to the shared segment while this backend did not hold
  \<^verbatim>\<open>pgsp->lock\<close>; it is the identity when the backend runs alone.
\<close>

record host =
  PG_VERSION_NUM :: nat
  USE_ASSERT_CHECKING :: bool
  compute_query_id_off :: bool
  cpu_operator_cost :: real
  MyDatabaseId :: Oid
  GetUserId :: Oid
  GetCurrentTimestamp :: int
  nodeToString :: "PlannedStmt \<Rightarrow> string"
  stringToNode :: "string \<Rightarrow> PlannedStmt"
  planner :: "Query \<Rightarrow> bool \<Rightarrow> PlannedStmt"
  standard_planner :: "Query \<Rightarrow> bool \<Rightarrow> PlannedStmt"
  pgsp_cached_plan_cost :: "PlannedStmt \<Rightarrow> bool \<Rightarrow> real"
  query_walker :: "Query \<Rightarrow> bool \<times> pgspWalkerContext"
  tupdesc_constid :: "Query \<Rightarrow> 32 word \<Rightarrow> 32 word"
  GetSysCacheHashValue1 :: "cache_id \<Rightarrow> Oid \<Rightarrow> Oid"
  others :: "pgsp_state \<Rightarrow> pgsp_state"

record gucs =
  pgsp_cache_all :: bool
  pgsp_disable_plancache :: bool
  pgsp_enabled :: bool
  pgsp_max :: int
  pgsp_min_plantime :: int
  pgsp_rdepend_max :: int
  pgsp_threshold :: int

definition PGSP_USAGE_INIT :: real where
  "PGSP_USAGE_INIT = 1.0"

definition ASSUMED_MEDIAN_INIT :: real where
  "ASSUMED_MEDIAN_INIT = 10.0"

definition USAGE_DECREASE_FACTOR :: real where
  "USAGE_DECREASE_FACTOR = 0.99"

definition USAGE_DEALLOC_PERCENT :: int where
  "USAGE_DEALLOC_PERCENT = 5"

definition PLANCACHE_THRESHOLD :: int where
  "PLANCACHE_THRESHOLD = 5"

subsection \<open>The lightweight lock\<close>

text \<open>
  \<^verbatim>\<open>LWLockAcquire\<close> blocks until the lock is free; a backend that already holds the lock
  would wait for itself, which the model reports as \<open>LockAlreadyHeld\<close>.  When the lock is
  obtained the backend sees the shared segment as the other backends left it.
  \<^verbatim>\<open>LWLockRelease\<close> on a lock the backend does not hold is PostgreSQL's
  \<^verbatim>\<open>elog(ERROR, "lock %s is not held")\<close>.
\<close>

definition LWLockAcquire :: "host \<Rightarrow> LWLockMode \<Rightarrow> pgsp_state \<Rightarrow> pgsp_state result" where
  "LWLockAcquire h mode s =
     (if lock s \<noteq> None then Inl (LockAlreadyHeld, s)
      else Inr ((others h s)\<lparr>lock := Some mode, pgsp_ro := pgsp_ro s, attached := attached s\<rparr>))"

definition LWLockRelease :: "pgsp_state \<Rightarrow> pgsp_state result" where
  "LWLockRelease s =
     (if lock s = None then Inl (LockNotHeld, s) else Inr (s\<lparr>lock := None\<rparr>))"

definition pgsp_attach_dsa :: "host \<Rightarrow> pgsp_state \<Rightarrow> pgsp_state result" where
  "pgsp_attach_dsa h s =
     (if attached s then Inr s
      else bind_result (LWLockAcquire h LW_EXCLUSIVE s) (\<lambda>s1.
           bind_result (LWLockRelease s1) (\<lambda>s2. Inr (s2\<lparr>attached := True\<rparr>))))"

subsection \<open>Byte accounting\<close>

definition PGSP_USEDSMEM :: "nat \<Rightarrow> pgsp_state \<Rightarrow> pgsp_state" where
  "PGSP_USEDSMEM sz s = s\<lparr>alloced_size := alloced_size s + int sz\<rparr>"

definition PGSP_FREEDSMEM :: "nat \<Rightarrow> pgsp_state \<Rightarrow> pgsp_state" where
  "PGSP_FREEDSMEM sz s = s\<lparr>alloced_size := alloced_size s - int sz\<rparr>"

text \<open>
  The arena half of \<^verbatim>\<open>PGSP_FREERELEASEDSMEM(where, what, size, sizefield)\<close>: free the
  block and give its bytes back.  Clearing \<^verbatim>\<open>where->what\<close> and \<^verbatim>\<open>where->sizefield\<close> is
  written at each use, on the entry or on the context that \<^verbatim>\<open>where\<close> names.
\<close>

definition free_release :: "dsa_pointer \<Rightarrow> nat \<Rightarrow> pgsp_state \<Rightarrow> pgsp_state" where
  "free_release p sz s = PGSP_FREEDSMEM sz (s\<lparr>pgsp_area := dsa_free (pgsp_area s) p\<rparr>)"

subsection \<open>The reverse-dependency index\<close>

text \<open>
  Modelled from the spec: \<^verbatim>\<open>pgsp_entry_register_rdepend\<close> lives in \<^verbatim>\<open>pgsp_rdepend.c\<close>,
  which is not among the sources.  The index maps a catalog object \<open>(db, class, object)\<close>
  to the set of fingerprints that depend on it, capped at \<^verbatim>\<open>rdepend_max\<close>; a registration
  that would exceed the cap fails and changes nothing.  The byte accounting of the index's
  own arrays is done inside that file and is not part of the model.
\<close>

definition pgsp_entry_register_rdepend ::
  "gucs \<Rightarrow> Oid \<Rightarrow> cache_id \<Rightarrow> Oid \<Rightarrow> pgspHashKey \<Rightarrow> pgsp_state \<Rightarrow> pgsp_state \<times> bool" where
  "pgsp_entry_register_rdepend g db cls obj k s =
     (let rkey = (db, cls, obj);
          ks = (case map_of (pgsp_rdepend s) rkey of None \<Rightarrow> [] | Some ks \<Rightarrow> ks)
      in if k \<in> set ks then (s, True)
         else if int (length ks) + 1 > pgsp_rdepend_max g then (s, False)
         else (s\<lparr>pgsp_rdepend :=
                   (rkey, ks @ [k]) # filter (\<lambda>r. fst r \<noteq> rkey) (pgsp_rdepend s)\<rparr>, True))"

text \<open>
  Modelled from the spec: \<^verbatim>\<open>pgsp_entry_unregister_rdepend\<close>, from the same absent file,
  removes the fingerprint from the object's set; an object whose set becomes empty leaves
  the index (\<^verbatim>\<open>pg_shared_plans\<close> asserts that a found index entry has at least one key).
\<close>

definition pgsp_entry_unregister_rdepend ::
  "Oid \<Rightarrow> cache_id \<Rightarrow> Oid \<Rightarrow> pgspHashKey \<Rightarrow> pgsp_state \<Rightarrow> pgsp_state" where
  "pgsp_entry_unregister_rdepend db cls obj k s =
     (let rkey = (db, cls, obj)
      in case map_of (pgsp_rdepend s) rkey of
           None \<Rightarrow> s
         | Some ks \<Rightarrow>
             (let ks' = removeAll k ks;
                  rest = filter (\<lambda>r. fst r \<noteq> rkey) (pgsp_rdepend s)
              in s\<lparr>pgsp_rdepend := (if ks' = [] then rest else (rkey, ks') # rest)\<rparr>))"


section \<open>The entry store\<close>

definition hash_search_find :: "pgspHashKey \<Rightarrow> pgsp_state \<Rightarrow> pgspEntry option" where
  "hash_search_find k s = find (\<lambda>e. key e = k) (pgsp_hash s)"

text \<open>Write a changed entry back through the pointer \<^verbatim>\<open>hash_search\<close> returned.\<close>

definition store_entry :: "pgspEntry \<Rightarrow> pgsp_state \<Rightarrow> pgsp_state" where
  "store_entry e s = s\<lparr>pgsp_hash := map (\<lambda>x. if key x = key e then e else x) (pgsp_hash s)\<rparr>"

definition unregister_rels :: "Oid \<Rightarrow> pgspHashKey \<Rightarrow> Oid list \<Rightarrow> pgsp_state \<Rightarrow> pgsp_state" where
  "unregister_rels db k array s =
     fold (\<lambda>obj. pgsp_entry_unregister_rdepend db RELOID obj k) array s"

definition unregister_rdeps :: "pgspHashKey \<Rightarrow> pgspRdependKey list \<Rightarrow> pgsp_state \<Rightarrow> pgsp_state" where
  "unregister_rdeps k array s =
     fold (\<lambda>r. pgsp_entry_unregister_rdepend (fst r) (fst (snd r)) (snd (snd r)) k) array s"

definition pgsp_entry_remove :: "pgspEntry \<Rightarrow> pgsp_state \<Rightarrow> pgsp_state" where
  "pgsp_entry_remove entry s =
     (let s1 = (if plan entry \<noteq> InvalidDsaPointer
                then free_release (plan entry) (len entry) s else s);
          s2 = (if num_rels entry > 0
                then (let array = oid_array (pgsp_area s1) (rels entry);
                          s' = unregister_rels (dbid (key entry)) (key entry)
                                 (take (num_rels entry) array) s1
                      in free_release (rels entry) (num_rels entry * sizeof_Oid) s')
                else s1);
          s3 = (if num_rdeps entry > 0
                then (let array = rdepend_array (pgsp_area s2) (rdeps entry);
                          s' = unregister_rdeps (key entry) (take (num_rdeps entry) array) s2
                      in free_release (rdeps entry) (num_rdeps entry * sizeof_pgspRdependKey) s')
                else s2)
      in s3\<lparr>pgsp_hash := filter (\<lambda>e. key e \<noteq> key entry) (pgsp_hash s3)\<rparr>)"

text \<open>
  \<^verbatim>\<open>pgsp_entry_dealloc\<close>.  \<^verbatim>\<open>qsort\<close> with \<^verbatim>\<open>entry_cmp\<close> orders by \<^verbatim>\<open>usage\<close> and leaves
  the order of equal usages open; the model sorts stably.
\<close>

text \<open>
  \<^verbatim>\<open>nvictims = Max(10, i * USAGE_DEALLOC_PERCENT / 100); nvictims = Min(nvictims, i)\<close>.
  The counter \<open>i\<close> is a 32-bit \<^verbatim>\<open>int\<close> that holds the number of entries (the table cannot
  have more than \<^verbatim>\<open>pg_shared_plans.max\<close>, itself an \<^verbatim>\<open>int\<close>); the product is computed in
  32 bits and wraps around, and the division truncates toward zero.
\<close>

definition nvictims :: "nat \<Rightarrow> nat" where
  "nvictims i =
     nat (min (max 10 (c_div (wrap_int32 (int i * USAGE_DEALLOC_PERCENT)) 100)) (int i))"

definition pgsp_entry_dealloc :: "pgsp_state \<Rightarrow> pgsp_state" where
  "pgsp_entry_dealloc s =
     (let s1 = s\<lparr>pgsp_hash :=
                   map (\<lambda>e. e\<lparr>usage := usage e * USAGE_DECREASE_FACTOR\<rparr>) (pgsp_hash s)\<rparr>;
          entries = sort_key usage (pgsp_hash s1);
          i = length entries;
          s2 = (if i > 0 then s1\<lparr>cur_median_usage := usage (entries ! (i div 2))\<rparr> else s1);
          s3 = fold pgsp_entry_remove (take (nvictims i) entries) s2
      in s3\<lparr>dealloc := dealloc s3 + 1\<rparr>)"

record pgspDsaContext =
  c_plan :: dsa_pointer
  c_rels :: dsa_pointer
  c_num_rdeps :: nat
  c_len :: nat
  c_num_rels :: nat
  c_rdeps :: dsa_pointer

definition empty_context :: pgspDsaContext where
  "empty_context = \<lparr>c_plan = InvalidDsaPointer, c_rels = InvalidDsaPointer, c_num_rdeps = 0,
     c_len = 0, c_num_rels = 0, c_rdeps = InvalidDsaPointer\<rparr>"

text \<open>\<^verbatim>\<open>PGSP_TRANSFER(entry, context, field, counter)\<close> for the three handles.\<close>

definition transfer_plan :: "pgspEntry \<times> pgspDsaContext \<Rightarrow> pgspEntry \<times> pgspDsaContext" where
  "transfer_plan ec = (case ec of (e, c) \<Rightarrow>
     (e\<lparr>plan := c_plan c, len := c_len c\<rparr>, c\<lparr>c_plan := InvalidDsaPointer, c_len := 0\<rparr>))"

definition transfer_rels :: "pgspEntry \<times> pgspDsaContext \<Rightarrow> pgspEntry \<times> pgspDsaContext" where
  "transfer_rels ec = (case ec of (e, c) \<Rightarrow>
     (e\<lparr>rels := c_rels c, num_rels := c_num_rels c\<rparr>,
      c\<lparr>c_rels := InvalidDsaPointer, c_num_rels := 0\<rparr>))"

definition transfer_rdeps :: "pgspEntry \<times> pgspDsaContext \<Rightarrow> pgspEntry \<times> pgspDsaContext" where
  "transfer_rdeps ec = (case ec of (e, c) \<Rightarrow>
     (e\<lparr>rdeps := c_rdeps c, num_rdeps := c_num_rdeps c\<rparr>,
      c\<lparr>c_rdeps := InvalidDsaPointer, c_num_rdeps := 0\<rparr>))"

text \<open>The loop \<^verbatim>\<open>while (hash_get_num_entries(pgsp_hash) >= pgsp_max) pgsp_entry_dealloc();\<close>\<close>

partial_function (option) make_space :: "gucs \<Rightarrow> pgsp_state \<Rightarrow> pgsp_state option" where
  "make_space g s =
     (if int (length (pgsp_hash s)) \<ge> pgsp_max g then make_space g (pgsp_entry_dealloc s)
      else Some s)"

declare make_space.simps [code]

text \<open>The branch of \<^verbatim>\<open>pgsp_entry_alloc\<close> for a new entry.\<close>

definition init_entry ::
  "pgspHashKey \<Rightarrow> pgspDsaContext \<Rightarrow> real \<Rightarrow> int \<Rightarrow> real \<Rightarrow> real \<Rightarrow> pgspEntry" where
  "init_entry k c ptime nconst custom_cost gen_cost =
     \<lparr>key = k, len = c_len c, plan = c_plan c, num_rels = c_num_rels c, rels = c_rels c,
      num_rdeps = c_num_rdeps c, rdeps = c_rdeps c, num_const = nconst, plantime = ptime,
      generic_cost = gen_cost, discard = 0, lockers = 0, bypass = 0, usage = PGSP_USAGE_INIT,
      total_custom_cost = custom_cost, num_custom_plans = 1\<rparr>"

text \<open>
  The branch for an entry that is locked while its plan is discarded: the prepared plan,
  its registrations and its arrays are given up.
\<close>

definition discard_prepared ::
  "host \<Rightarrow> pgspHashKey \<Rightarrow> pgspDsaContext \<Rightarrow> pgsp_state \<Rightarrow> pgsp_state \<times> pgspDsaContext" where
  "discard_prepared h k c s =
     (let s1 = free_release (c_plan c) (c_len c) s;
          c1 = c\<lparr>c_plan := InvalidDsaPointer, c_len := 0\<rparr>;
          s2 = (if c_num_rels c1 > 0
                then unregister_rels (MyDatabaseId h) k
                       (take (c_num_rels c1) (oid_array (pgsp_area s1) (c_rels c1))) s1
                else s1);
          s3 = (if c_num_rdeps c1 > 0
                then unregister_rdeps k
                       (take (c_num_rdeps c1) (rdepend_array (pgsp_area s2) (c_rdeps c1))) s2
                else s2);
          s4 = (if c_num_rels c1 > 0
                then free_release (c_rels c1) (c_num_rels c1 * sizeof_Oid) s3 else s3);
          c2 = (if c_num_rels c1 > 0
                then c1\<lparr>c_rels := InvalidDsaPointer, c_num_rels := 0\<rparr> else c1);
          s5 = (if c_num_rdeps c2 > 0
                then free_release (c_rdeps c2) (c_num_rdeps c2 * sizeof_pgspRdependKey) s4
                else s4);
          c3 = (if c_num_rdeps c2 > 0
                then c2\<lparr>c_rdeps := InvalidDsaPointer, c_num_rdeps := 0\<rparr> else c2)
      in (s5, c3))"

text \<open>
  ``Update reverse dependencies'': the entry keeps a plan, its old arrays are replaced by
  the context's, and the old dependencies that the new arrays no longer list are
  unregistered.
\<close>

definition reconcile_rels ::
  "host \<Rightarrow> pgspHashKey \<Rightarrow> pgspEntry \<times> pgspDsaContext \<Rightarrow> pgsp_state
     \<Rightarrow> (pgspEntry \<times> pgspDsaContext) \<times> pgsp_state" where
  "reconcile_rels h k ec s = (case ec of (e, c) \<Rightarrow>
     (if rels e \<noteq> InvalidDsaPointer
      then (let old = take (num_rels e) (oid_array (pgsp_area s) (rels e));
                new = (if c_rels c \<noteq> InvalidDsaPointer
                       then take (c_num_rels c) (oid_array (pgsp_area s) (c_rels c)) else []);
                s1 = fold (\<lambda>obj st. if obj \<in> set new then st
                             else pgsp_entry_unregister_rdepend (MyDatabaseId h) RELOID obj k st)
                       old s;
                s2 = free_release (rels e) (num_rels e * sizeof_Oid) s1
            in (transfer_rels (e\<lparr>rels := InvalidDsaPointer, num_rels := 0\<rparr>, c), s2))
      else (transfer_rels (e, c), s)))"

definition reconcile_rdeps ::
  "pgspHashKey \<Rightarrow> pgspEntry \<times> pgspDsaContext \<Rightarrow> pgsp_state
     \<Rightarrow> (pgspEntry \<times> pgspDsaContext) \<times> pgsp_state" where
  "reconcile_rdeps k ec s = (case ec of (e, c) \<Rightarrow>
     (if rdeps e \<noteq> InvalidDsaPointer
      then (let old = take (num_rdeps e) (rdepend_array (pgsp_area s) (rdeps e));
                new = (if c_rdeps c \<noteq> InvalidDsaPointer
                       then take (c_num_rdeps c) (rdepend_array (pgsp_area s) (c_rdeps c))
                       else []);
                s1 = fold (\<lambda>r st. if r \<in> set new then st
                             else pgsp_entry_unregister_rdepend (fst r) (fst (snd r))
                                    (snd (snd r)) k st)
                       old s;
                s2 = free_release (rdeps e) (num_rdeps e * sizeof_pgspRdependKey) s1
            in (transfer_rdeps (e\<lparr>rdeps := InvalidDsaPointer, num_rdeps := 0\<rparr>, c), s2))
      else (transfer_rdeps (e, c), s)))"


text \<open>
  \<^verbatim>\<open>pgsp_entry_alloc\<close> after the make-space loop, block by block.  Each block works on
  the entry that \<^verbatim>\<open>hash_search(HASH_ENTER)\<close> returned, the context and the shared state;
  \<open>found\<close> is the entry as it was found, if any.

  First block: initialise a new entry, or attach the plan to an entry whose plan was
  discarded, or give the prepared plan up when that entry is locked.
\<close>

definition alloc_attach ::
  "host \<Rightarrow> pgspHashKey \<Rightarrow> pgspDsaContext \<Rightarrow> real \<Rightarrow> int \<Rightarrow> real \<Rightarrow> real \<Rightarrow> pgspEntry option
     \<Rightarrow> pgsp_state \<Rightarrow> (pgspEntry \<times> pgspDsaContext) \<times> pgsp_state" where
  "alloc_attach h k c ptime nconst custom_cost gen_cost found s =
     (case found of
        None \<Rightarrow>
          (transfer_rdeps (transfer_rels (transfer_plan
             (init_entry k c ptime nconst custom_cost gen_cost, c))), s)
      | Some e \<Rightarrow>
          (if plan e = InvalidDsaPointer
           then (if lockers e \<noteq> 0
                 then (case discard_prepared h k c s of (s', c') \<Rightarrow> ((e, c'), s'))
                 else (transfer_plan (e, c), s))
           else ((e, c), s)))"

text \<open>``Free the plan if it wasn't transferred''.\<close>

definition alloc_free_plan ::
  "(pgspEntry \<times> pgspDsaContext) \<times> pgsp_state \<Rightarrow> (pgspEntry \<times> pgspDsaContext) \<times> pgsp_state" where
  "alloc_free_plan ecs = (case ecs of ((e, c), s) \<Rightarrow>
     (if c_plan c \<noteq> InvalidDsaPointer
      then ((e, c\<lparr>c_plan := InvalidDsaPointer, c_len := 0\<rparr>),
            free_release (c_plan c) (c_len c) s)
      else ((e, c), s)))"

text \<open>``Update reverse dependencies'', for an entry that was found and has a plan.\<close>

definition alloc_update_rdepend ::
  "host \<Rightarrow> pgspHashKey \<Rightarrow> pgspEntry option \<Rightarrow> (pgspEntry \<times> pgspDsaContext) \<times> pgsp_state
     \<Rightarrow> (pgspEntry \<times> pgspDsaContext) \<times> pgsp_state" where
  "alloc_update_rdepend h k found ecs = (case ecs of ((e, c), s) \<Rightarrow>
     (if found \<noteq> None \<and> plan e \<noteq> InvalidDsaPointer
      then (case reconcile_rels h k (e, c) s of (ec, s') \<Rightarrow> reconcile_rdeps k ec s')
      else ((e, c), s)))"

text \<open>The two last blocks: free the arrays the context still owns.\<close>

definition alloc_free_arrays ::
  "(pgspEntry \<times> pgspDsaContext) \<times> pgsp_state \<Rightarrow> (pgspEntry \<times> pgspDsaContext) \<times> pgsp_state" where
  "alloc_free_arrays ecs = (case ecs of ((e, c3), s3) \<Rightarrow>
     (let c4 = (if c_rels c3 \<noteq> InvalidDsaPointer
                then c3\<lparr>c_rels := InvalidDsaPointer, c_num_rels := 0\<rparr> else c3);
          s4 = (if c_rels c3 \<noteq> InvalidDsaPointer
                then free_release (c_rels c3) (c_num_rels c3 * sizeof_Oid) s3 else s3);
          c5 = (if c_rdeps c4 \<noteq> InvalidDsaPointer
                then c4\<lparr>c_rdeps := InvalidDsaPointer, c_num_rdeps := 0\<rparr> else c4);
          s5 = (if c_rdeps c4 \<noteq> InvalidDsaPointer
                then free_release (c_rdeps c4) (c_num_rdeps c4 * sizeof_pgspRdependKey) s4
                else s4)
      in ((e, c5), s5)))"

text \<open>
  The whole of it: \<^verbatim>\<open>hash_search(HASH_ENTER)\<close> appends a new entry at the end of the
  scan order, and the entry as the blocks left it is what the table holds afterwards.
\<close>

definition entry_alloc_body ::
  "host \<Rightarrow> pgspHashKey \<Rightarrow> pgspDsaContext \<Rightarrow> real \<Rightarrow> int \<Rightarrow> real \<Rightarrow> real \<Rightarrow> pgsp_state
     \<Rightarrow> pgsp_state \<times> pgspDsaContext" where
  "entry_alloc_body h k c0 ptime nconst custom_cost gen_cost s0 =
     (let found = hash_search_find k s0
      in case alloc_free_arrays (alloc_update_rdepend h k found (alloc_free_plan
                (alloc_attach h k c0 ptime nconst custom_cost gen_cost found s0))) of
           ((e, c), s) \<Rightarrow>
             ((case found of
                 None \<Rightarrow> s\<lparr>pgsp_hash := pgsp_hash s @ [e]\<rparr>
               | Some _ \<Rightarrow> store_entry e s), c))"

definition pgsp_entry_alloc ::
  "gucs \<Rightarrow> host \<Rightarrow> pgspHashKey \<Rightarrow> pgspDsaContext \<Rightarrow> real \<Rightarrow> int \<Rightarrow> real \<Rightarrow> real \<Rightarrow> pgsp_state
     \<Rightarrow> (pgsp_state \<times> pgspDsaContext) option" where
  "pgsp_entry_alloc g h k c ptime nconst custom_cost gen_cost s =
     map_option (entry_alloc_body h k c ptime nconst custom_cost gen_cost) (make_space g s)"

section \<open>Storing a plan\<close>

definition list_append_unique_oid :: "Oid list \<Rightarrow> Oid \<Rightarrow> Oid list" where
  "list_append_unique_oid oids x = (if x \<in> set oids then oids else oids @ [x])"

definition plan_relations :: "host \<Rightarrow> PlannedStmt \<Rightarrow> Oid list" where
  "plan_relations h stmt =
     fold (\<lambda>rte oids.
             if rtekind rte \<noteq> RTE_RELATION \<and>
                \<not> (PG_VERSION_NUM h \<ge> 160000 \<and> rtekind rte = RTE_SUBQUERY \<and>
                   relid rte \<noteq> InvalidOid)
             then oids else list_append_unique_oid oids (relid rte))
       (rtable stmt) []"

definition PGSP_ITEM_NOT_HANDLED :: "PlanInvalItem \<Rightarrow> bool" where
  "PGSP_ITEM_NOT_HANDLED i = (cacheId i \<noteq> TYPEOID \<and> cacheId i \<noteq> PROCOID)"

text \<open>The registration loop over the relation array; returns \<open>(ok, i, state)\<close>.\<close>

fun register_rels ::
  "gucs \<Rightarrow> host \<Rightarrow> pgspHashKey \<Rightarrow> Oid list \<Rightarrow> nat \<Rightarrow> pgsp_state \<Rightarrow> bool \<times> nat \<times> pgsp_state" where
  "register_rels g h k [] i s = (True, i, s)"
| "register_rels g h k (a # as) i s =
     (case pgsp_entry_register_rdepend g (MyDatabaseId h) RELOID a k s of
        (s', ok) \<Rightarrow> if \<not> ok then (False, i, s') else register_rels g h k as (Suc i) s')"

text \<open>The registration loop over the invalidation items; returns \<open>(ok, rdeps_tmp, state)\<close>.\<close>

fun register_invals ::
  "gucs \<Rightarrow> host \<Rightarrow> pgspHashKey \<Rightarrow> PlanInvalItem list \<Rightarrow> pgspRdependKey list \<Rightarrow> pgsp_state
     \<Rightarrow> bool \<times> pgspRdependKey list \<times> pgsp_state" where
  "register_invals g h k [] tmp s = (True, tmp, s)"
| "register_invals g h k (item # items) tmp s =
     (if PGSP_ITEM_NOT_HANDLED item then register_invals g h k items tmp s
      else (case pgsp_entry_register_rdepend g (MyDatabaseId h) (cacheId item)
                   (hashValue item) k s of
              (s', ok) \<Rightarrow>
                if \<not> ok then (False, tmp, s')
                else register_invals g h k items
                       (tmp @ [(MyDatabaseId h, cacheId item, hashValue item)]) s'))"

text \<open>
  The unwinding loop at \<^verbatim>\<open>free_invals\<close>: it counts the handled items it unregisters in
  \<open>i\<close> and leaves once \<open>i\<close> is greater than \<^verbatim>\<open>nb_alloced_inval\<close>.
\<close>

fun unregister_invals ::
  "host \<Rightarrow> pgspHashKey \<Rightarrow> nat \<Rightarrow> PlanInvalItem list \<Rightarrow> nat \<Rightarrow> pgsp_state \<Rightarrow> pgsp_state" where
  "unregister_invals h k nb [] i s = s"
| "unregister_invals h k nb (item # items) i s =
     (if PGSP_ITEM_NOT_HANDLED item then unregister_invals h k nb items i s
      else (let s' = pgsp_entry_unregister_rdepend (MyDatabaseId h) (cacheId item)
                       (hashValue item) k s
            in if Suc i > nb then s' else unregister_invals h k nb items (Suc i) s'))"

text \<open>The three labels at the end of \<^verbatim>\<open>pgsp_allocate_plan\<close>, each falling into the next.\<close>

definition free_plan ::
  "bool \<Rightarrow> pgspDsaContext \<Rightarrow> pgsp_state \<Rightarrow> (bool \<times> pgspDsaContext \<times> pgsp_state) result" where
  "free_plan ok c s =
     (let s1 = (if \<not> ok then free_release (c_plan c) (c_len c) s else s)
      in bind_result (LWLockRelease s1) (\<lambda>s2. Inr (ok, c, s2)))"

definition free_rels ::
  "host \<Rightarrow> bool \<Rightarrow> pgspDsaContext \<Rightarrow> pgspHashKey \<Rightarrow> Oid list \<Rightarrow> nat \<Rightarrow> pgsp_state
     \<Rightarrow> (bool \<times> pgspDsaContext \<times> pgsp_state) result" where
  "free_rels h ok c k oids nb_alloced_rels s =
     (let s1 = (if \<not> ok \<and> c_num_rels c > 0
                then (let array = oid_array (pgsp_area s) (c_rels c);
                          s' = unregister_rels (MyDatabaseId h) k (take nb_alloced_rels array) s
                      in free_release (c_rels c) (length oids * sizeof_Oid) s')
                else s)
      in free_plan ok c s1)"

definition free_invals ::
  "host \<Rightarrow> bool \<Rightarrow> pgspDsaContext \<Rightarrow> pgspHashKey \<Rightarrow> Oid list \<Rightarrow> nat \<Rightarrow> PlanInvalItem list \<Rightarrow> nat
     \<Rightarrow> pgsp_state \<Rightarrow> (bool \<times> pgspDsaContext \<times> pgsp_state) result" where
  "free_invals h ok c k oids nb_alloced_rels items nb_alloced_inval s =
     (let s1 = (if \<not> ok \<and> nb_alloced_inval > 0
                then unregister_invals h k nb_alloced_inval items 0 s else s)
      in free_rels h ok c k oids nb_alloced_rels s1)"

text \<open>\<^verbatim>\<open>pgsp_allocate_plan\<close> from \<^verbatim>\<open>LWLockAcquire(pgsp->lock, LW_EXCLUSIVE)\<close> on.\<close>

definition allocate_plan_locked ::
  "gucs \<Rightarrow> host \<Rightarrow> Query \<Rightarrow> PlannedStmt \<Rightarrow> pgspDsaContext \<Rightarrow> pgspHashKey \<Rightarrow> Oid list \<Rightarrow> pgsp_state
     \<Rightarrow> (bool \<times> pgspDsaContext \<times> pgsp_state) result" where
  "allocate_plan_locked g h parse stmt c k oids s =
     bind_result (LWLockAcquire h LW_EXCLUSIVE s) (\<lambda>s1.
       (let array = take (c_num_rels c) (oid_array (pgsp_area s1) (c_rels c))
        in case register_rels g h k array 0 s1 of
          (ok, nb_alloced_rels, s2) \<Rightarrow>
            if \<not> ok then free_rels h False c k oids nb_alloced_rels s2
            else (let items = query_dependencies parse @ invalItems stmt
                  in case register_invals g h k items [] s2 of
                    (ok2, rdeps_tmp, s3) \<Rightarrow>
                      (let nb = length rdeps_tmp
                       in if \<not> ok2 then free_invals h False c k oids nb_alloced_rels items nb s3
                          else if nb > 0
                          then (case dsa_allocate_extended (pgsp_area s3)
                                       (sizeof_pgspRdependKey * nb) (RdependArray rdeps_tmp) of
                                  (a, r) \<Rightarrow>
                                    if r = InvalidDsaPointer
                                    then free_invals h False (c\<lparr>c_rdeps := r\<rparr>) k oids
                                           nb_alloced_rels items nb s3
                                    else free_invals h True (c\<lparr>c_rdeps := r, c_num_rdeps := nb\<rparr>)
                                           k oids nb_alloced_rels items nb
                                           (PGSP_USEDSMEM (nb * sizeof_pgspRdependKey)
                                              (s3\<lparr>pgsp_area := a\<rparr>)))
                          else free_invals h True (c\<lparr>c_num_rdeps := nb\<rparr>) k oids
                                 nb_alloced_rels items nb s3))))"

definition pgsp_allocate_plan ::
  "gucs \<Rightarrow> host \<Rightarrow> Query \<Rightarrow> PlannedStmt \<Rightarrow> pgspDsaContext \<Rightarrow> pgspHashKey \<Rightarrow> pgsp_state
     \<Rightarrow> (bool \<times> pgspDsaContext \<times> pgsp_state) result" where
  "pgsp_allocate_plan g h parse stmt context k s =
     (let serialized = nodeToString h stmt;
          c1 = context\<lparr>c_len := length serialized + 1\<rparr>
      in case dsa_allocate_extended (pgsp_area s) (c_len c1) (PlanBlob serialized) of
        (a1, p) \<Rightarrow>
          (let c2 = c1\<lparr>c_plan := p\<rparr>
           in if c_plan c2 = InvalidDsaPointer then Inr (False, c2, s)
              else (let s1 = PGSP_USEDSMEM (c_len c2) (s\<lparr>pgsp_area := a1\<rparr>);
                        oids = plan_relations h stmt;
                        c3 = c2\<lparr>c_num_rels := length oids\<rparr>
                    in if length oids \<noteq> 0
                       then (let array_len = sizeof_Oid * length oids
                             in case dsa_allocate_extended (pgsp_area s1) array_len
                                       (OidArray oids) of
                               (a2, q) \<Rightarrow>
                                 (let c4 = c3\<lparr>c_rels := q\<rparr>
                                  in if c_rels c4 = InvalidDsaPointer then free_plan False c4 s1
                                     else allocate_plan_locked g h parse stmt c4 k oids
                                            (PGSP_USEDSMEM array_len (s1\<lparr>pgsp_area := a2\<rparr>))))
                       else allocate_plan_locked g h parse stmt c3 k oids s1)))"

definition pgsp_cache_plan ::
  "gucs \<Rightarrow> host \<Rightarrow> Query \<Rightarrow> PlannedStmt \<Rightarrow> PlannedStmt \<Rightarrow> pgspHashKey \<Rightarrow> real \<Rightarrow> int \<Rightarrow> pgsp_state
     \<Rightarrow> pgsp_state result" where
  "pgsp_cache_plan g h parse custom generic k ptime nconst s =
     bind_result (pgsp_allocate_plan g h parse generic empty_context k s) (\<lambda>r.
       case r of (ok, context, s1) \<Rightarrow>
         if \<not> ok then Inr s1
         else bind_result (LWLockAcquire h LW_EXCLUSIVE s1) (\<lambda>s2.
                case pgsp_entry_alloc g h k context ptime nconst
                       (pgsp_cached_plan_cost h custom True)
                       (pgsp_cached_plan_cost h generic False) s2 of
                  None \<Rightarrow> Inl (NeverReturns, s2)
                | Some (s3, context') \<Rightarrow> LWLockRelease s3))"


section \<open>The planner hook\<close>

definition pgsp_accum_custom_plan ::
  "host \<Rightarrow> pgspHashKey \<Rightarrow> real \<Rightarrow> pgsp_state \<Rightarrow> pgsp_state result" where
  "pgsp_accum_custom_plan h k custom_cost s =
     bind_result (LWLockAcquire h LW_SHARED s) (\<lambda>s1.
       LWLockRelease
         (case hash_search_find k s1 of
            None \<Rightarrow> s1
          | Some e \<Rightarrow>
              store_entry (e\<lparr>total_custom_cost := total_custom_cost e + custom_cost,
                             num_custom_plans := num_custom_plans e + 1\<rparr>) s1))"

definition plan_string :: "dsa_area \<Rightarrow> dsa_pointer \<Rightarrow> string" where
  "plan_string a p = (case dsa_get_address a p of Some (PlanBlob str) \<Rightarrow> str | _ \<Rightarrow> [])"

text \<open>
  The cost bias applied to a cached plan that is returned (the block under ``Entry is
  still valid, keep going'').  \<open>bp\<close> is the entry's \<^verbatim>\<open>bypass\<close> counter read at the
  second lookup.
\<close>

definition adjust_cost :: "gucs \<Rightarrow> host \<Rightarrow> int \<Rightarrow> PlannedStmt \<Rightarrow> PlannedStmt" where
  "adjust_cost g h bp result =
     (if pgsp_threshold g \<ge> PLANCACHE_THRESHOLD then result
      else (let nb_rels = length (rtable result);
                total_diff = (1000.0 * cpu_operator_cost h * real (nb_rels + 1)) *
                             real_of_int PLANCACHE_THRESHOLD;
                diff0 = total_diff / real_of_int (PLANCACHE_THRESHOLD - pgsp_threshold g) + 0.01;
                diff = (if pgsp_disable_plancache g
                        then (if bp > PLANCACHE_THRESHOLD - pgsp_threshold g
                              then total_cost result * 2
                              else diff0 + total_cost result * 2 * real_of_int (pgsp_threshold g))
                        else diff0);
                cost = total_cost result - diff
            in result\<lparr>total_cost :=
                 (if \<not> pgsp_disable_plancache g \<and> cost \<le> 0.0 then 0.001 else cost)\<rparr>))"

text \<open>
  The \<^verbatim>\<open>return\<close> statement through which the hook left: the \<^verbatim>\<open>fallback\<close> label, one
  of the two returns of the cached plan, or the return of the freshly planned statement.
\<close>

datatype hook_return = Fallback | CachedPlan | Planned

text \<open>
  The hook after the first \<^verbatim>\<open>LWLockRelease\<close> that follows the lookup: run the host's
  planner, then cache the plan or accumulate the custom cost.  \<open>no_entry\<close> is
  \<^verbatim>\<open>!entry\<close>, \<open>ms\<close> the measured \<^verbatim>\<open>plantime\<close>.
\<close>

definition hook_plan ::
  "gucs \<Rightarrow> host \<Rightarrow> Query \<Rightarrow> bool \<Rightarrow> real \<Rightarrow> pgspHashKey \<Rightarrow> int \<Rightarrow> bool \<Rightarrow> bool \<Rightarrow> pgsp_state
     \<Rightarrow> (hook_return \<times> PlannedStmt \<times> pgsp_state) result" where
  "hook_plan g h parse boundParams ms k nconst no_entry accum_custom_stats s =
     (let result = planner h parse boundParams
      in if no_entry \<and> ms \<ge> real_of_int (pgsp_min_plantime g)
         then (let generic = standard_planner h parse False
               in bind_result (pgsp_cache_plan g h parse result generic k ms nconst s)
                    (\<lambda>s'. Inr (Planned, result, s')))
         else if accum_custom_stats
         then bind_result
                (pgsp_accum_custom_plan h k (pgsp_cached_plan_cost h result True) s)
                (\<lambda>s'. Inr (Planned, result, s'))
         else Inr (Planned, result, s))"

text \<open>
  The hook from the lookup under the shared lock to its first release.  After the
  second lookup the 64-bit counter \<^verbatim>\<open>entry->bypass\<close> is copied into the local
  \<^verbatim>\<open>int bypass\<close>, which keeps its low 32 bits.
\<close>

definition hook_lookup ::
  "gucs \<Rightarrow> host \<Rightarrow> Query \<Rightarrow> bool \<Rightarrow> real \<Rightarrow> pgspHashKey \<Rightarrow> int \<Rightarrow> pgsp_state
     \<Rightarrow> (hook_return \<times> PlannedStmt \<times> pgsp_state) result" where
  "hook_lookup g h parse boundParams ms k nconst s =
     (case hash_search_find k s of
        None \<Rightarrow>
          bind_result (LWLockRelease s) (hook_plan g h parse boundParams ms k nconst True False)
      | Some entry \<Rightarrow>
          (let discard0 = discard entry
           in if plan entry = InvalidDsaPointer
              then bind_result (LWLockRelease s)
                     (hook_plan g h parse boundParams ms k nconst True False)
              else (case pgsp_choose_cache_plan (pgsp_threshold g) entry False of
                      (entry', use_cached, accum_custom_stats) \<Rightarrow>
                        (let s1 = store_entry entry' s
                         in if use_cached
                            then (let result = stringToNode h
                                                 (plan_string (pgsp_area s1) (plan entry'))
                                  in bind_result (LWLockRelease s1) (\<lambda>s2.
                                     bind_result (LWLockAcquire h LW_SHARED s2) (\<lambda>s3.
                                       (let entry2 = hash_search_find k s3;
                                            still_valid =
                                              (case entry2 of
                                                 None \<Rightarrow> False
                                               | Some e2 \<Rightarrow>
                                                   \<not> (plan e2 = InvalidDsaPointer \<or>
                                                      discard e2 \<noteq> discard0));
                                            bp = (case entry2 of None \<Rightarrow> 0
                                                  | Some e2 \<Rightarrow> wrap_int32 (bypass e2))
                                        in bind_result (LWLockRelease s3) (\<lambda>s4.
                                             if still_valid
                                             then Inr (CachedPlan, adjust_cost g h bp result, s4)
                                             else bind_result (LWLockRelease s4)
                                                    (hook_plan g h parse boundParams ms k nconst
                                                       True accum_custom_stats))))))
                            else bind_result (LWLockRelease s1)
                                   (hook_plan g h parse boundParams ms k nconst False
                                      accum_custom_stats)))))"

definition pgsp_planner_hook ::
  "gucs \<Rightarrow> host \<Rightarrow> Query \<Rightarrow> bool \<Rightarrow> real \<Rightarrow> pgsp_state
     \<Rightarrow> (hook_return \<times> PlannedStmt \<times> pgsp_state) result" where
  "pgsp_planner_hook g h parse boundParams ms s =
     (if \<not> pgsp_enabled g \<or> queryId parse = 0 \<or>
         (PG_VERSION_NUM h \<ge> 140000 \<and> compute_query_id_off h) \<or>
         (if USE_ASSERT_CHECKING h then \<not> pgsp_cache_all g \<and> \<not> boundParams
          else \<not> boundParams)
      then Inr (Fallback, planner h parse boundParams, s)
      else if utilityStmt parse then Inr (Fallback, planner h parse boundParams, s)
      else bind_result (pgsp_attach_dsa h s) (\<lambda>s1.
             (let uid = (if hasRowSecurity parse then GetUserId h else InvalidOid)
              in case query_walker h parse of
                (reject, context) \<Rightarrow>
                  if reject then Inr (Fallback, planner h parse boundParams, s1)
                  else (let cid = (if USE_ASSERT_CHECKING h \<and> pgsp_cache_all g
                                   then tupdesc_constid h parse (walker_constid context)
                                   else walker_constid context);
                            k = \<lparr>userid = uid, dbid = MyDatabaseId h,
                                 queryid = queryId parse, constid = cid\<rparr>
                        in bind_result (LWLockAcquire h LW_SHARED s1)
                             (hook_lookup g h parse boundParams ms k
                                (walker_num_const context))))))"

section \<open>Invalidation\<close>

datatype pgspEvictionKind = PGSP_DISCARD | PGSP_EVICT | PGSP_DISCARD_AND_LOCK | PGSP_UNLOCK

text \<open>The body of the loop over \<^verbatim>\<open>rkeys\<close> in \<^verbatim>\<open>pgsp_evict_by_oid\<close>.\<close>

definition evict_entry :: "pgspEvictionKind \<Rightarrow> pgspHashKey \<Rightarrow> pgsp_state \<Rightarrow> pgsp_state" where
  "evict_entry kind rk s =
     (case hash_search_find rk s of
        None \<Rightarrow> s
      | Some entry \<Rightarrow>
          (let e1 = (if kind = PGSP_UNLOCK then entry\<lparr>lockers := lockers entry - 1\<rparr>
                     else if kind = PGSP_DISCARD_AND_LOCK
                     then entry\<lparr>lockers := lockers entry + 1\<rparr>
                     else entry)
           in if kind \<noteq> PGSP_UNLOCK
              then (let e2 = (if plan e1 \<noteq> InvalidDsaPointer
                              then e1\<lparr>plan := InvalidDsaPointer, len := 0,
                                      discard := (if kind \<noteq> PGSP_EVICT then discard e1 + 1
                                                  else discard e1)\<rparr>
                              else e1);
                        s1 = (if plan e1 \<noteq> InvalidDsaPointer
                              then free_release (plan e1) (len e1) s else s);
                        s2 = store_entry e2 s1
                    in if kind = PGSP_EVICT then pgsp_entry_remove e2 s2 else s2)
              else store_entry e1 s))"

definition pgsp_evict_by_oid ::
  "host \<Rightarrow> Oid \<Rightarrow> cache_id \<Rightarrow> Oid \<Rightarrow> pgspEvictionKind \<Rightarrow> pgsp_state \<Rightarrow> pgsp_state result" where
  "pgsp_evict_by_oid h db cls obj kind s =
     (if cls \<noteq> RELOID \<and> cls \<noteq> TYPEOID \<and> cls \<noteq> PROCOID
      then Inl (RdependClassNotHandled cls, s)
      else (let rkey = (db, cls, if cls \<noteq> RELOID then GetSysCacheHashValue1 h cls obj else obj)
            in case map_of (pgsp_rdepend s) rkey of
                 None \<Rightarrow> Inr s
               | Some rkeys \<Rightarrow> Inr (fold (evict_entry kind) rkeys s)))"

fun evict_oids ::
  "host \<Rightarrow> cache_id \<Rightarrow> pgspEvictionKind \<Rightarrow> Oid list \<Rightarrow> pgsp_state \<Rightarrow> pgsp_state result" where
  "evict_oids h cls kind [] s = Inr s"
| "evict_oids h cls kind (obj # objs) s =
     bind_result (pgsp_evict_by_oid h (MyDatabaseId h) cls obj kind s)
       (evict_oids h cls kind objs)"

section \<open>Reset\<close>

text \<open>
  The scan of \<^verbatim>\<open>pg_shared_plans_reset_internal\<close>: every entry of the table is visited
  once, and the ones that match are removed and counted.
\<close>

definition reset_matches :: "Oid \<Rightarrow> Oid \<Rightarrow> 64 word \<Rightarrow> pgspEntry \<Rightarrow> bool" where
  "reset_matches uid db qid entry =
     ((uid = 0 \<or> userid (key entry) = uid) \<and>
      (db = 0 \<or> dbid (key entry) = db) \<and>
      (qid = 0 \<or> queryid (key entry) = qid))"

definition reset_scan ::
  "(pgspEntry \<Rightarrow> bool) \<Rightarrow> pgsp_state \<Rightarrow> pgsp_state \<times> int" where
  "reset_scan matches s =
     fold (\<lambda>entry (st, num_remove).
             if matches entry then (pgsp_entry_remove entry st, num_remove + 1)
             else (st, num_remove))
       (pgsp_hash s) (s, 0)"

definition pg_shared_plans_reset_internal ::
  "host \<Rightarrow> Oid \<Rightarrow> Oid \<Rightarrow> 64 word \<Rightarrow> pgsp_state \<Rightarrow> pgsp_state result" where
  "pg_shared_plans_reset_internal h uid db qid s =
     bind_result (pgsp_attach_dsa h s) (\<lambda>s0.
     bind_result (LWLockAcquire h LW_EXCLUSIVE s0) (\<lambda>s1.
       (let num_entries = int (length (pgsp_hash s1));
            scanned = (if uid \<noteq> 0 \<or> db \<noteq> 0 \<or> qid \<noteq> 0
                       then reset_scan (reset_matches uid db qid) s1
                       else reset_scan (\<lambda>entry. True) s1);
            s2 = fst scanned;
            num_remove = snd scanned;
            s3 = (if num_entries = num_remove
                  then s2\<lparr>dealloc := 0, stats_reset := GetCurrentTimestamp h\<rparr> else s2)
        in LWLockRelease s3)))"


section \<open>The utility hook\<close>

type_synonym pgspOidsKey = "pgspEvictionKind \<times> cache_id"

record pgspUtilityContext =
  oids_hash :: "(pgspOidsKey \<times> Oid list) list"
  has_discard :: bool
  has_remove :: bool
  has_lock :: bool
  reset_current_db :: bool


text \<open>
  \<^verbatim>\<open>get_oids_entry\<close> followed by the assignment to \<^verbatim>\<open>entry->oids\<close>: the list stored under
  \<open>(kind, classid)\<close> is replaced by \<open>f\<close> of the old one, an absent entry starting from
  \<^verbatim>\<open>NIL\<close>.
\<close>

definition update_oids_entry ::
  "pgspEvictionKind \<Rightarrow> cache_id \<Rightarrow> (Oid list \<Rightarrow> Oid list) \<Rightarrow> pgspUtilityContext
     \<Rightarrow> pgspUtilityContext" where
  "update_oids_entry kind cls f c =
     (case map_of (oids_hash c) (kind, cls) of
        None \<Rightarrow> c\<lparr>oids_hash := oids_hash c @ [((kind, cls), f [])]\<rparr>
      | Some old \<Rightarrow>
          c\<lparr>oids_hash := map (\<lambda>x. if fst x = (kind, cls) then (fst x, f old) else x)
                            (oids_hash c)\<rparr>)"

definition list_concat_unique_oid :: "Oid list \<Rightarrow> Oid list \<Rightarrow> Oid list" where
  "list_concat_unique_oid l1 l2 = fold (\<lambda>x acc. list_append_unique_oid acc x) l2 l1"

definition discard_oid :: "cache_id \<Rightarrow> Oid \<Rightarrow> pgspUtilityContext \<Rightarrow> pgspUtilityContext" where
  "discard_oid cls obj c =
     (if obj = InvalidOid then c
      else (update_oids_entry PGSP_DISCARD cls (\<lambda>l. list_append_unique_oid l obj) c)
             \<lparr>has_discard := True\<rparr>)"

definition discard_oids :: "cache_id \<Rightarrow> Oid list \<Rightarrow> pgspUtilityContext \<Rightarrow> pgspUtilityContext" where
  "discard_oids cls objs c =
     (if objs = [] then c
      else (update_oids_entry PGSP_DISCARD cls (\<lambda>l. list_concat_unique_oid l objs) c)
             \<lparr>has_discard := True\<rparr>)"


definition lock_oids :: "cache_id \<Rightarrow> Oid list \<Rightarrow> pgspUtilityContext \<Rightarrow> pgspUtilityContext" where
  "lock_oids cls objs c =
     (if objs = [] then c
      else (update_oids_entry PGSP_DISCARD_AND_LOCK cls (\<lambda>l. list_concat_unique_oid l objs) c)
             \<lparr>has_lock := True\<rparr>)"

definition remove_oid :: "cache_id \<Rightarrow> Oid \<Rightarrow> pgspUtilityContext \<Rightarrow> pgspUtilityContext" where
  "remove_oid cls obj c =
     (if obj = InvalidOid then c
      else (update_oids_entry PGSP_EVICT cls (\<lambda>l. list_append_unique_oid l obj) c)
             \<lparr>has_remove := True\<rparr>)"

text \<open>
  What the utility hook does, in order: each operation on \<^verbatim>\<open>pgsp->lock\<close>, each call of
  \<^verbatim>\<open>pgsp_evict_by_oid\<close> with the lock mode held at the call, the execution of the
  statement by the server with the state it runs in, and the switch to read-only.
\<close>

datatype event =
    LockAcquired LWLockMode
  | LockReleased
  | Evicted pgspEvictionKind cache_id Oid "LWLockMode option"
  | UtilityExecuted pgsp_state
  | ReadOnlySet

text \<open>The scan of \<^verbatim>\<open>pgsp_utility_do_lock\<close> over \<^verbatim>\<open>c->oids_hash\<close>.\<close>

fun do_lock_scan ::
  "host \<Rightarrow> (pgspOidsKey \<times> Oid list) list \<Rightarrow> pgsp_state \<times> event list
     \<Rightarrow> (pgsp_state \<times> event list) result" where
  "do_lock_scan h [] acc = Inr acc"
| "do_lock_scan h (entry # rest) acc =
     (if fst (fst entry) \<noteq> PGSP_DISCARD_AND_LOCK then do_lock_scan h rest acc
      else (let cls = snd (fst entry); objs = snd entry
            in bind_result (LWLockAcquire h LW_EXCLUSIVE (fst acc)) (\<lambda>s1.
               bind_result (evict_oids h cls PGSP_DISCARD_AND_LOCK objs s1) (\<lambda>s2.
               bind_result (LWLockRelease s2) (\<lambda>s3.
               bind_result (LWLockAcquire h LW_SHARED s3) (\<lambda>s4.
               bind_result (evict_oids h cls PGSP_UNLOCK objs s4) (\<lambda>s5.
                 do_lock_scan h rest
                   (s5, snd acc @ [LockAcquired LW_EXCLUSIVE] @
                        map (\<lambda>obj. Evicted PGSP_DISCARD_AND_LOCK cls obj (lock s1)) objs @
                        [LockReleased, LockAcquired LW_SHARED] @
                        map (\<lambda>obj. Evicted PGSP_UNLOCK cls obj (lock s4)) objs))))))))"

definition pgsp_utility_do_lock ::
  "host \<Rightarrow> pgspUtilityContext \<Rightarrow> pgsp_state \<Rightarrow> (pgsp_state \<times> event list) result" where
  "pgsp_utility_do_lock h c s =
     (if \<not> has_lock c then Inr (s, []) else do_lock_scan h (oids_hash c) (s, []))"

text \<open>The scan of \<^verbatim>\<open>pgsp_ProcessUtility\<close> over the collected oids after the statement ran.\<close>

fun post_scan ::
  "host \<Rightarrow> (pgspOidsKey \<times> Oid list) list \<Rightarrow> pgsp_state \<times> event list
     \<Rightarrow> (pgsp_state \<times> event list) result" where
  "post_scan h [] acc = Inr acc"
| "post_scan h (entry # rest) acc =
     (if fst (fst entry) \<noteq> PGSP_DISCARD \<and> fst (fst entry) \<noteq> PGSP_EVICT
      then post_scan h rest acc
      else bind_result (evict_oids h (snd (fst entry)) (fst (fst entry)) (snd entry) (fst acc))
             (\<lambda>s1. post_scan h rest
                     (s1, snd acc @
                          map (\<lambda>obj. Evicted (fst (fst entry)) (snd (fst entry)) obj
                                       (lock (fst acc)))
                            (snd entry))))"

text \<open>
  \<^verbatim>\<open>pgsp_ProcessUtility\<close>.  \<open>util\<close> is the context as \<^verbatim>\<open>pgsp_utility_pre_exec\<close> filled it
  and \<open>post_exec\<close> what \<^verbatim>\<open>pgsp_utility_post_exec\<close> adds to it; both read the server's
  catalogs.  \<open>utility_ok\<close> is whether the server ran the statement without raising.
\<close>

definition pgsp_ProcessUtility ::
  "host \<Rightarrow> pgspUtilityContext \<Rightarrow> (pgspUtilityContext \<Rightarrow> pgspUtilityContext) \<Rightarrow> bool \<Rightarrow> pgsp_state
     \<Rightarrow> (pgsp_state \<times> event list) result" where
  "pgsp_ProcessUtility h util post_exec utility_ok s =
     bind_result (pgsp_attach_dsa h s) (\<lambda>s1.
     bind_result (pgsp_utility_do_lock h util s1) (\<lambda>r.
       case r of (s2, evs) \<Rightarrow>
         if \<not> utility_ok then Inl (UtilityFailed, s2)
         else (let evs1 = evs @ [UtilityExecuted s2]
               in if reset_current_db util
                  then bind_result
                         (pg_shared_plans_reset_internal h InvalidOid (MyDatabaseId h) 0 s2)
                         (\<lambda>s3. Inr (s3, evs1))
                  else (let util' = post_exec util
                        in if has_discard util' \<or> has_remove util' \<or> has_lock util'
                           then bind_result
                                  (if has_lock util' then Inr (s2, evs1)
                                   else bind_result (LWLockAcquire h LW_EXCLUSIVE s2)
                                          (\<lambda>s3. Inr (s3, evs1 @ [LockAcquired LW_EXCLUSIVE])))
                                  (\<lambda>acc.
                                     bind_result (post_scan h (oids_hash util') acc) (\<lambda>acc'.
                                     bind_result
                                       (LWLockRelease ((fst acc')\<lparr>pgsp_ro := True\<rparr>))
                                       (\<lambda>s5. Inr (s5, snd acc' @ [ReadOnlySet, LockReleased]))))
                           else Inr (s2, evs1)))))"

section \<open>Notions used in the statements\<close>

text \<open>The entries of the table after the decay of an eviction pass, in scan order.\<close>

definition decayed :: "pgsp_state \<Rightarrow> pgspEntry list" where
  "decayed s = map (\<lambda>e. e\<lparr>usage := usage e * USAGE_DECREASE_FACTOR\<rparr>) (pgsp_hash s)"

text \<open>The entries an eviction pass removes: the first \<open>nvictims\<close> of the sorted array.\<close>

definition victims :: "pgsp_state \<Rightarrow> pgspEntry list" where
  "victims s = take (nvictims (length (pgsp_hash s))) (sort_key usage (decayed s))"

definition within_capacity :: "gucs \<Rightarrow> pgsp_state \<Rightarrow> bool" where
  "within_capacity g s = (int (length (pgsp_hash s)) \<le> pgsp_max g)"

text \<open>
  The state a call leaves behind, whether it returned (\<open>f\<close> picks the state out of the
  returned value) or raised.
\<close>

definition final_state :: "('a \<Rightarrow> pgsp_state) \<Rightarrow> 'a result \<Rightarrow> pgsp_state" where
  "final_state f r = (case r of Inl e \<Rightarrow> snd e | Inr x \<Rightarrow> f x)"

text \<open>
  The entry points through which a backend reaches the cache.  After an error the
  transaction abort releases every lightweight lock the backend holds.
\<close>

datatype call =
    PlannerHook Query bool real
  | ProcessUtility pgspUtilityContext "pgspUtilityContext \<Rightarrow> pgspUtilityContext" bool
  | Reset Oid Oid "64 word"

definition LWLockReleaseAll :: "pgsp_state \<Rightarrow> pgsp_state" where
  "LWLockReleaseAll s = s\<lparr>lock := None\<rparr>"

fun run_call :: "gucs \<Rightarrow> host \<Rightarrow> call \<Rightarrow> pgsp_state \<Rightarrow> pgsp_state" where
  "run_call g h (PlannerHook parse boundParams ms) s =
     LWLockReleaseAll (final_state (\<lambda>r. snd (snd r)) (pgsp_planner_hook g h parse boundParams ms s))"
| "run_call g h (ProcessUtility util post_exec utility_ok) s =
     LWLockReleaseAll (final_state fst (pgsp_ProcessUtility h util post_exec utility_ok s))"
| "run_call g h (Reset uid db qid) s =
     LWLockReleaseAll (final_state id (pg_shared_plans_reset_internal h uid db qid s))"

text \<open>
  What belongs to an entry: the live blocks it owns in the arena, their bytes as the entry
  accounts for them, and the dependencies listed in its two arrays.  \<open>registered\<close> is the
  list of keys the reverse index holds for a dependency.  In a well-formed table no block
  belongs to two entries or twice to one.
\<close>

definition entry_blocks :: "pgspEntry \<Rightarrow> dsa_pointer list" where
  "entry_blocks e =
     (if plan e \<noteq> InvalidDsaPointer then [plan e] else []) @
     (if num_rels e > 0 then [rels e] else []) @
     (if num_rdeps e > 0 then [rdeps e] else [])"

definition entry_bytes :: "pgspEntry \<Rightarrow> int" where
  "entry_bytes e =
     (if plan e \<noteq> InvalidDsaPointer then int (len e) else 0) +
     (if num_rels e > 0 then int (num_rels e * sizeof_Oid) else 0) +
     (if num_rdeps e > 0 then int (num_rdeps e * sizeof_pgspRdependKey) else 0)"

definition entry_deps :: "dsa_area \<Rightarrow> pgspEntry \<Rightarrow> pgspRdependKey list" where
  "entry_deps a e =
     (if num_rels e > 0
      then map (\<lambda>obj. (dbid (key e), RELOID, obj)) (take (num_rels e) (oid_array a (rels e)))
      else []) @
     (if num_rdeps e > 0 then take (num_rdeps e) (rdepend_array a (rdeps e)) else [])"

definition registered :: "pgsp_state \<Rightarrow> pgspRdependKey \<Rightarrow> pgspHashKey list" where
  "registered s rk = (case map_of (pgsp_rdepend s) rk of None \<Rightarrow> [] | Some ks \<Rightarrow> ks)"

definition blocks_apart :: "pgspEntry list \<Rightarrow> bool" where
  "blocks_apart es =
     ((\<forall>e \<in> set es. distinct (entry_blocks e)) \<and>
      (\<forall>e \<in> set es. \<forall>e' \<in> set es.
         key e \<noteq> key e' \<longrightarrow> set (entry_blocks e) \<inter> set (entry_blocks e') = {}))"

section \<open>Concrete inputs\<close>

definition example_key :: "64 word \<Rightarrow> pgspHashKey" where
  "example_key q = \<lparr>userid = 0, dbid = 1, queryid = q, constid = 0\<rparr>"

text \<open>An entry whose plan was discarded and that has no dependencies.\<close>

definition example_entry :: "64 word \<Rightarrow> real \<Rightarrow> pgspEntry" where
  "example_entry q u =
     \<lparr>key = example_key q, len = 0, plan = InvalidDsaPointer, num_rels = 0,
      rels = InvalidDsaPointer, num_rdeps = 0, rdeps = InvalidDsaPointer, num_const = 0,
      plantime = 20, generic_cost = 10, discard = 1, lockers = 0, bypass = 0, usage = u,
      total_custom_cost = 100, num_custom_plans = 4\<rparr>"

definition example_area :: dsa_area where
  "example_area = \<lparr>cells = [], next_pointer = 0, capacity = 1000\<rparr>"

definition example_state :: "pgspEntry list \<Rightarrow> pgsp_state" where
  "example_state es =
     \<lparr>cur_median_usage = ASSUMED_MEDIAN_INIT, rdepend_num = 0, alloced_size = 0, dealloc = 0,
      stats_reset = 0, pgsp_hash = es, pgsp_area = example_area, pgsp_rdepend = [],
      lock = None, pgsp_ro = False, attached = True\<rparr>"

definition example_entries :: "nat \<Rightarrow> pgspEntry list" where
  "example_entries n = map (\<lambda>i. example_entry (of_nat i) 1) [0..<n]"

definition example_gucs :: gucs where
  "example_gucs =
     \<lparr>pgsp_cache_all = False, pgsp_disable_plancache = False, pgsp_enabled = True,
      pgsp_max = 5, pgsp_min_plantime = 10, pgsp_rdepend_max = 50, pgsp_threshold = 4\<rparr>"

definition example_plan :: PlannedStmt where
  "example_plan =
     \<lparr>rtable = [\<lparr>rtekind = RTE_RELATION, relid = 16384\<rparr>], total_cost = 100, invalItems = []\<rparr>"

definition example_host :: host where
  "example_host =
     \<lparr>PG_VERSION_NUM = 160000, USE_ASSERT_CHECKING = False, compute_query_id_off = False,
      cpu_operator_cost = 0.0025, MyDatabaseId = 1, GetUserId = 10, GetCurrentTimestamp = 1000,
      nodeToString = (\<lambda>p. ''PLAN''), stringToNode = (\<lambda>str. example_plan),
      planner = (\<lambda>q b. example_plan), standard_planner = (\<lambda>q b. example_plan),
      pgsp_cached_plan_cost = (\<lambda>p b. total_cost p),
      query_walker = (\<lambda>q. (False, \<lparr>walker_constid = 0, walker_num_const = 0\<rparr>)),
      tupdesc_constid = (\<lambda>q c. c), GetSysCacheHashValue1 = (\<lambda>c obj. obj), others = id\<rparr>"

definition example_query :: Query where
  "example_query =
     \<lparr>queryId = 42, utilityStmt = False, hasRowSecurity = False, query_dependencies = []\<rparr>"

text \<open>A table filled to \<^verbatim>\<open>pg_shared_plans.max = 5\<close>, every entry with usage 2.\<close>

definition full_state :: pgsp_state where
  "full_state = example_state
     [example_entry 1 2, example_entry 2 2, example_entry 3 2, example_entry 4 2,
      example_entry 5 2]"

text \<open>Twelve entries with usages 12 down to 1.\<close>

definition twelve_state :: pgsp_state where
  "twelve_state = example_state
     [example_entry 1 12, example_entry 2 11, example_entry 3 10, example_entry 4 9,
      example_entry 5 8, example_entry 6 7, example_entry 7 6, example_entry 8 5,
      example_entry 9 4, example_entry 10 3, example_entry 11 2, example_entry 12 1]"

text \<open>
  The other backends run the same code, so what they do to the shared segment while this
  backend waits for the lock keeps the table within its capacity.
\<close>

definition others_keep_capacity :: "gucs \<Rightarrow> host \<Rightarrow> bool" where
  "others_keep_capacity g h = (\<forall>s. within_capacity g s \<longrightarrow> within_capacity g (others h s))"

text \<open>
  The state in which a function that starts with \<^verbatim>\<open>pgsp_attach_dsa()\<close> and
  \<^verbatim>\<open>LWLockAcquire(pgsp->lock, mode)\<close> does its work.
\<close>

definition table_when_locked :: "host \<Rightarrow> LWLockMode \<Rightarrow> pgsp_state \<Rightarrow> pgsp_state" where
  "table_when_locked h mode s =
     final_state id (bind_result (pgsp_attach_dsa h s) (LWLockAcquire h mode))"

definition three_state :: pgsp_state where
  "three_state = example_state [example_entry 1 1, example_entry 2 1, example_entry 3 1]"

text \<open>The key the planner hook builds for a query.\<close>

definition hook_key :: "gucs \<Rightarrow> host \<Rightarrow> Query \<Rightarrow> pgspHashKey" where
  "hook_key g h parse =
     \<lparr>userid = (if hasRowSecurity parse then GetUserId h else InvalidOid),
      dbid = MyDatabaseId h, queryid = queryId parse,
      constid = (if USE_ASSERT_CHECKING h \<and> pgsp_cache_all g
                 then tupdesc_constid h parse (walker_constid (snd (query_walker h parse)))
                 else walker_constid (snd (query_walker h parse)))\<rparr>"

text \<open>
  The request gets past the tests that lead to the \<^verbatim>\<open>fallback\<close> label and the walker
  accepts the query.
\<close>

definition reaches_cache :: "gucs \<Rightarrow> host \<Rightarrow> Query \<Rightarrow> bool \<Rightarrow> bool" where
  "reaches_cache g h parse boundParams =
     (pgsp_enabled g \<and> queryId parse \<noteq> 0 \<and>
      \<not> (PG_VERSION_NUM h \<ge> 140000 \<and> compute_query_id_off h) \<and>
      (boundParams \<or> (USE_ASSERT_CHECKING h \<and> pgsp_cache_all g)) \<and>
      \<not> utilityStmt parse \<and> \<not> fst (query_walker h parse))"

text \<open>The lookup finds no entry, or an entry whose plan was discarded.\<close>

definition misses :: "pgspHashKey \<Rightarrow> pgsp_state \<Rightarrow> bool" where
  "misses k s =
     (case hash_search_find k s of None \<Rightarrow> True | Some e \<Rightarrow> plan e = InvalidDsaPointer)"

text \<open>
  A build with assertions, with \<^verbatim>\<open>pg_shared_plans.cache_regular_statements\<close> switched on.
\<close>

definition debug_host :: host where
  "debug_host = example_host\<lparr>USE_ASSERT_CHECKING := True\<rparr>"

definition debug_gucs :: gucs where
  "debug_gucs = example_gucs\<lparr>pgsp_cache_all := True\<rparr>"

text \<open>The entry created for \<open>example_query\<close>.\<close>

definition cached_entry :: pgspEntry where
  "cached_entry =
     \<lparr>key = \<lparr>userid = 0, dbid = 1, queryid = 42, constid = 0\<rparr>, len = 5, plan = 1,
      num_rels = 1, rels = 2, num_rdeps = 0, rdeps = 0, num_const = 0, plantime = 20,
      generic_cost = 100, discard = 0, lockers = 0, bypass = 0, usage = 1,
      total_custom_cost = 100, num_custom_plans = 1\<rparr>"

text \<open>
  The shared segment once the plan of \<open>example_query\<close> has been stored: the plan and its
  relation array are in the arena and the relation is registered in the reverse index.
\<close>

definition stocked_state :: "pgspEntry list \<Rightarrow> pgsp_state" where
  "stocked_state es =
     \<lparr>cur_median_usage = ASSUMED_MEDIAN_INIT, rdepend_num = 0, alloced_size = 9, dealloc = 0,
      stats_reset = 0, pgsp_hash = es,
      pgsp_area = \<lparr>cells = [(1, 5, PlanBlob ''PLAN''), (2, 4, OidArray [16384])],
                    next_pointer = 2, capacity = 1000\<rparr>,
      pgsp_rdepend = [((1, RELOID, 16384), [\<lparr>userid = 0, dbid = 1, queryid = 42, constid = 0\<rparr>])],
      lock = None, pgsp_ro = False, attached = True\<rparr>"

definition cached_state :: "pgspEntry \<Rightarrow> pgsp_state" where
  "cached_state e = stocked_state [e]"

definition example_context :: pgspDsaContext where
  "example_context =
     \<lparr>c_plan = 1, c_rels = 2, c_num_rdeps = 0, c_len = 5, c_num_rels = 1, c_rdeps = 0\<rparr>"

text \<open>
  An entry with enough custom plans for the arbitration to choose the cached plan, a
  configuration with the threshold at its upper bound, and a host whose stored plan costs
  25.0105.
\<close>

definition popular_entry :: pgspEntry where
  "popular_entry = cached_entry\<lparr>num_custom_plans := 5, total_custom_cost := 1000\<rparr>"

definition threshold5_gucs :: gucs where
  "threshold5_gucs = example_gucs\<lparr>pgsp_threshold := 5\<rparr>"

definition cheap_plan :: PlannedStmt where
  "cheap_plan = example_plan\<lparr>total_cost := 25.0105\<rparr>"

definition cheap_plan_host :: host where
  "cheap_plan_host = example_host\<lparr>stringToNode := (\<lambda>str. cheap_plan)\<rparr>"

definition disable_gucs :: gucs where
  "disable_gucs = example_gucs\<lparr>pgsp_disable_plancache := True\<rparr>"

text \<open>What a trace of the utility hook says about the lock, the evictions and the statement.\<close>

fun is_lock_event :: "event \<Rightarrow> bool" where
  "is_lock_event (LockAcquired m) = True"
| "is_lock_event LockReleased = True"
| "is_lock_event ev = False"

fun is_eviction :: "event \<Rightarrow> bool" where
  "is_eviction (Evicted kind cls obj m) = True"
| "is_eviction ev = False"

fun utility_states :: "event list \<Rightarrow> pgsp_state list" where
  "utility_states [] = []"
| "utility_states (UtilityExecuted s # evs) = s # utility_states evs"
| "utility_states (ev # evs) = utility_states evs"




text \<open>
  The keys of the table with their \<^verbatim>\<open>lockers\<close>, and how often a key is listed in the reverse
  index under the relations of a statement: so often does one pass of
  \<^verbatim>\<open>pgsp_evict_by_oid\<close> over these relations visit the entry.
\<close>

definition key_lockers :: "pgsp_state \<Rightarrow> (pgspHashKey \<times> 32 word) list" where
  "key_lockers s = map (\<lambda>e. (key e, lockers e)) (pgsp_hash s)"



text \<open>
  An arena with room for a serialized plan of 5 bytes and not for the 4 bytes of a relation
  array, and the same segment once \<^verbatim>\<open>pgsp_allocate_plan\<close> has taken back what it allocated.
\<close>

definition tight_state :: pgsp_state where
  "tight_state = (example_state [])\<lparr>pgsp_area := example_area\<lparr>capacity := 8\<rparr>\<rparr>"

definition state_after_unwind :: pgsp_state where
  "state_after_unwind =
     (example_state [])\<lparr>pgsp_area := example_area\<lparr>capacity := 8, next_pointer := 1\<rparr>\<rparr>"

section \<open>Arbitration policy\<close>

text \<open>
  C1.  With the threshold within its configured range (at least 1): when the entry's
  \<^verbatim>\<open>num_custom_plans\<close> is below the threshold, the cached plan is not used and the caller
  is told to accumulate the custom plan's cost; otherwise the count is not zero and the
  cached plan is used exactly when \<^verbatim>\<open>generic_cost < total_custom_cost / num_custom_plans\<close>.
\<close>

theorem choose_cache_plan_policy:
  assumes "1 \<le> th"
  shows "(num_custom_plans e < th \<longrightarrow>
            \<not> fst (snd (pgsp_choose_cache_plan th e acc)) \<and>
            snd (snd (pgsp_choose_cache_plan th e acc))) \<and>
         (\<not> num_custom_plans e < th \<longrightarrow>
            num_custom_plans e \<noteq> 0 \<and>
            (fst (snd (pgsp_choose_cache_plan th e acc)) \<longleftrightarrow>
               generic_cost e < total_custom_cost e / real_of_int (num_custom_plans e)))"
  using assms by (auto simp: pgsp_choose_cache_plan_def Let_def)

theorem choose_cache_plan_policy_witness:
  "(1::int) \<le> 4 \<and> fst (snd (pgsp_choose_cache_plan 4 (example_entry 1 1) False)) \<and>
   \<not> fst (snd (pgsp_choose_cache_plan 5 (example_entry 1 1) False)) \<and>
   snd (snd (pgsp_choose_cache_plan 5 (example_entry 1 1) False))"
  using choose_cache_plan_policy [of 4 "example_entry 1 1" False]
        choose_cache_plan_policy [of 5 "example_entry 1 1" False]
  by (simp add: example_entry_def)

section \<open>What each step leaves unchanged\<close>

lemma free_release_frame [simp]:
  "pgsp_hash (free_release p n s) = pgsp_hash s"
  "dealloc (free_release p n s) = dealloc s"
  "cur_median_usage (free_release p n s) = cur_median_usage s"
  "stats_reset (free_release p n s) = stats_reset s"
  "lock (free_release p n s) = lock s"
  "pgsp_ro (free_release p n s) = pgsp_ro s"
  "attached (free_release p n s) = attached s"
  "pgsp_rdepend (free_release p n s) = pgsp_rdepend s"
  by (simp_all add: free_release_def PGSP_FREEDSMEM_def)

lemma unregister_frame [simp]:
  "pgsp_hash (pgsp_entry_unregister_rdepend db cls obj k s) = pgsp_hash s"
  "dealloc (pgsp_entry_unregister_rdepend db cls obj k s) = dealloc s"
  "cur_median_usage (pgsp_entry_unregister_rdepend db cls obj k s) = cur_median_usage s"
  "stats_reset (pgsp_entry_unregister_rdepend db cls obj k s) = stats_reset s"
  "lock (pgsp_entry_unregister_rdepend db cls obj k s) = lock s"
  "pgsp_ro (pgsp_entry_unregister_rdepend db cls obj k s) = pgsp_ro s"
  "attached (pgsp_entry_unregister_rdepend db cls obj k s) = attached s"
  "alloced_size (pgsp_entry_unregister_rdepend db cls obj k s) = alloced_size s"
  "pgsp_area (pgsp_entry_unregister_rdepend db cls obj k s) = pgsp_area s"
  by (simp_all add: pgsp_entry_unregister_rdepend_def Let_def split: option.splits)

lemma unregister_rels_frame [simp]:
  "pgsp_hash (unregister_rels db k xs s) = pgsp_hash s"
  "dealloc (unregister_rels db k xs s) = dealloc s"
  "cur_median_usage (unregister_rels db k xs s) = cur_median_usage s"
  "stats_reset (unregister_rels db k xs s) = stats_reset s"
  "lock (unregister_rels db k xs s) = lock s"
  "pgsp_ro (unregister_rels db k xs s) = pgsp_ro s"
  "attached (unregister_rels db k xs s) = attached s"
  "alloced_size (unregister_rels db k xs s) = alloced_size s"
  "pgsp_area (unregister_rels db k xs s) = pgsp_area s"
  by (induction xs arbitrary: s; simp add: unregister_rels_def)+

lemma unregister_rdeps_frame [simp]:
  "pgsp_hash (unregister_rdeps k xs s) = pgsp_hash s"
  "dealloc (unregister_rdeps k xs s) = dealloc s"
  "cur_median_usage (unregister_rdeps k xs s) = cur_median_usage s"
  "stats_reset (unregister_rdeps k xs s) = stats_reset s"
  "lock (unregister_rdeps k xs s) = lock s"
  "pgsp_ro (unregister_rdeps k xs s) = pgsp_ro s"
  "attached (unregister_rdeps k xs s) = attached s"
  "alloced_size (unregister_rdeps k xs s) = alloced_size s"
  "pgsp_area (unregister_rdeps k xs s) = pgsp_area s"
  by (induction xs arbitrary: s; simp add: unregister_rdeps_def)+

lemma entry_remove_hash:
  "pgsp_hash (pgsp_entry_remove e s) = filter (\<lambda>x. key x \<noteq> key e) (pgsp_hash s)"
  by (simp add: pgsp_entry_remove_def Let_def)

lemma entry_remove_frame [simp]:
  "dealloc (pgsp_entry_remove e s) = dealloc s"
  "cur_median_usage (pgsp_entry_remove e s) = cur_median_usage s"
  "stats_reset (pgsp_entry_remove e s) = stats_reset s"
  "lock (pgsp_entry_remove e s) = lock s"
  "pgsp_ro (pgsp_entry_remove e s) = pgsp_ro s"
  "attached (pgsp_entry_remove e s) = attached s"
  by (simp_all add: pgsp_entry_remove_def Let_def)

lemma fold_entry_remove_hash:
  "pgsp_hash (fold pgsp_entry_remove vs s) =
     filter (\<lambda>x. key x \<notin> key ` set vs) (pgsp_hash s)"
  by (induction vs arbitrary: s) (auto simp: entry_remove_hash intro: filter_cong)

lemma fold_entry_remove_frame [simp]:
  "dealloc (fold pgsp_entry_remove vs s) = dealloc s"
  "cur_median_usage (fold pgsp_entry_remove vs s) = cur_median_usage s"
  "stats_reset (fold pgsp_entry_remove vs s) = stats_reset s"
  "lock (fold pgsp_entry_remove vs s) = lock s"
  "pgsp_ro (fold pgsp_entry_remove vs s) = pgsp_ro s"
  "attached (fold pgsp_entry_remove vs s) = attached s"
  by (induction vs arbitrary: s; simp)+

section \<open>The eviction pass\<close>

lemma sort_key_Nil_iff [simp]: "sort_key f xs = [] \<longleftrightarrow> xs = []"
  by (metis length_sort length_0_conv)

lemma entry_dealloc_hash:
  "pgsp_hash (pgsp_entry_dealloc s) =
     filter (\<lambda>x. key x \<notin> key ` set (victims s)) (decayed s)"
  by (simp add: pgsp_entry_dealloc_def Let_def fold_entry_remove_hash victims_def decayed_def)

lemma entry_dealloc_counter:
  "dealloc (pgsp_entry_dealloc s) = dealloc s + 1"
  by (simp add: pgsp_entry_dealloc_def Let_def)

lemma entry_dealloc_median:
  "cur_median_usage (pgsp_entry_dealloc s) =
     (if pgsp_hash s = [] then cur_median_usage s
      else usage (sort_key usage (decayed s) ! (length (pgsp_hash s) div 2)))"
  by (simp add: pgsp_entry_dealloc_def Let_def decayed_def)

lemma entry_dealloc_frame [simp]:
  "lock (pgsp_entry_dealloc s) = lock s"
  "pgsp_ro (pgsp_entry_dealloc s) = pgsp_ro s"
  "attached (pgsp_entry_dealloc s) = attached s"
  "stats_reset (pgsp_entry_dealloc s) = stats_reset s"
  by (simp_all add: pgsp_entry_dealloc_def Let_def)

lemma decayed_keys [simp]: "map key (decayed s) = map key (pgsp_hash s)"
  by (simp add: decayed_def comp_def)

lemma length_decayed [simp]: "length (decayed s) = length (pgsp_hash s)"
  by (simp add: decayed_def)

lemma nvictims_le: "nvictims i \<le> i"
  by (simp add: nvictims_def)

lemma nvictims_pos: "0 < i \<Longrightarrow> 0 < nvictims i"
  by (simp add: nvictims_def)

lemma wrap_int32_id: "- 2147483648 \<le> x \<Longrightarrow> x < 2147483648 \<Longrightarrow> wrap_int32 x = x"
  by (simp add: wrap_int32_def)

lemma c_div_nonneg: "0 \<le> a \<Longrightarrow> 0 < b \<Longrightarrow> c_div a b = a div b"
  by (cases "a = 0") (simp_all add: c_div_def)

lemma c_div_neg: "a < 0 \<Longrightarrow> 0 < b \<Longrightarrow> c_div a b \<le> 0"
  by (simp add: c_div_def pos_imp_zdiv_nonneg_iff)

lemma nvictims_eq:
  assumes "i < 429496730"
  shows "nvictims i = min (max 10 (i * 5 div 100)) i"
proof -
  have "wrap_int32 (int i * 5) = int i * 5"
    using assms by (intro wrap_int32_id) simp_all
  moreover have "c_div (int i * 5) 100 = int (i * 5 div 100)"
    by (simp add: c_div_nonneg zdiv_int)
  ultimately have "nvictims i = nat (min (max 10 (int (i * 5 div 100))) (int i))"
    by (simp add: nvictims_def USAGE_DEALLOC_PERCENT_def)
  also have "\<dots> = min (max 10 (i * 5 div 100)) i"
    by (simp add: min_def max_def)
  finally show ?thesis .
qed

lemma length_victims [simp]: "length (victims s) = nvictims (length (pgsp_hash s))"
  by (simp add: victims_def nvictims_le)

lemma victims_subset: "set (victims s) \<subseteq> set (decayed s)"
  unfolding victims_def using set_take_subset [of _ "sort_key usage (decayed s)"] by simp

lemma length_filter_keys:
  assumes "distinct (map key D)" and "set V \<subseteq> set D" and "distinct V"
  shows "length (filter (\<lambda>x. key x \<notin> key ` set V) D) = length D - length V"
proof -
  have inj: "inj_on key (set D)" and dD: "distinct D"
    using assms(1) by (simp_all add: distinct_map)
  have eq: "filter (\<lambda>x. key x \<in> key ` set V) D = filter (\<lambda>x. x \<in> set V) D"
  proof (rule filter_cong [OF refl])
    fix x assume "x \<in> set D"
    then show "(key x \<in> key ` set V) = (x \<in> set V)"
      using inj assms(2) by (auto dest: inj_onD)
  qed
  have "set (filter (\<lambda>x. x \<in> set V) D) = set V"
    using assms(2) by auto
  moreover have "distinct (filter (\<lambda>x. x \<in> set V) D)"
    using dD by simp
  ultimately have "length (filter (\<lambda>x. x \<in> set V) D) = length V"
    using assms(3) by (metis distinct_card)
  then have "length (filter (\<lambda>x. key x \<in> key ` set V) D) = length V"
    using eq by simp
  moreover have "length D = length (filter (\<lambda>x. key x \<in> key ` set V) D) +
                   length (filter (\<lambda>x. \<not> key x \<in> key ` set V) D)"
    by (rule sum_length_filter_compl [symmetric])
  ultimately show ?thesis by simp
qed

lemma distinct_decayed:
  assumes "distinct (map key (pgsp_hash s))"
  shows "distinct (decayed s)"
proof -
  have "distinct (map key (decayed s))" using assms by simp
  then show ?thesis unfolding distinct_map by blast
qed

lemma distinct_victims:
  assumes "distinct (map key (pgsp_hash s))"
  shows "distinct (victims s)"
  using distinct_decayed [OF assms] by (simp add: victims_def)

lemma entry_dealloc_length:
  assumes "distinct (map key (pgsp_hash s))"
  shows "length (pgsp_hash (pgsp_entry_dealloc s)) =
           length (pgsp_hash s) - nvictims (length (pgsp_hash s))"
proof -
  have "distinct (map key (decayed s))" using assms by simp
  then show ?thesis
    using length_filter_keys [OF _ victims_subset distinct_victims [OF assms]]
    by (simp add: entry_dealloc_hash)
qed

lemma sorted_take_le_drop:
  assumes "sorted (map f xs)" and "a \<in> set (take n xs)" and "b \<in> set (drop n xs)"
  shows "f a \<le> f b"
proof -
  have "sorted (map f (take n xs) @ map f (drop n xs))"
    using assms(1) by (simp flip: map_append)
  then show ?thesis
    using assms(2,3) by (auto simp: sorted_append)
qed

lemma survivors_in_drop:
  assumes "x \<in> set (decayed s)" and "x \<notin> set (victims s)"
  shows "x \<in> set (drop (nvictims (length (pgsp_hash s))) (sort_key usage (decayed s)))"
proof -
  let ?S = "sort_key usage (decayed s)" and ?n = "nvictims (length (pgsp_hash s))"
  have "x \<in> set (take ?n ?S @ drop ?n ?S)" using assms(1) by simp
  then show ?thesis using assms(2) unfolding victims_def set_append by blast
qed

lemma entry_dealloc_hash_distinct:
  assumes "distinct (map key (pgsp_hash s))"
  shows "pgsp_hash (pgsp_entry_dealloc s) = filter (\<lambda>x. x \<notin> set (victims s)) (decayed s)"
proof -
  have inj: "inj_on key (set (decayed s))"
    using assms distinct_map [of key "decayed s"] by simp
  show ?thesis
    unfolding entry_dealloc_hash
  proof (rule filter_cong [OF refl])
    fix x assume "x \<in> set (decayed s)"
    then show "(key x \<notin> key ` set (victims s)) = (x \<notin> set (victims s))"
      using inj victims_subset [of s] by (auto dest: inj_onD)
  qed
qed

lemma entry_dealloc_via_remove:
  "\<exists>s0. pgsp_hash s0 = decayed s \<and>
        pgsp_entry_dealloc s = (fold pgsp_entry_remove (victims s) s0)\<lparr>dealloc := dealloc s + 1\<rparr>"
proof -
  let ?s1 = "s\<lparr>pgsp_hash := decayed s\<rparr>"
  let ?s2 = "if 0 < length (sort_key usage (decayed s))
             then ?s1\<lparr>cur_median_usage :=
                        usage (sort_key usage (decayed s) ! (length (sort_key usage (decayed s)) div 2))\<rparr>
             else ?s1"
  have "pgsp_hash ?s2 = decayed s" by simp
  moreover have "pgsp_entry_dealloc s =
                   (fold pgsp_entry_remove (victims s) ?s2)\<lparr>dealloc := dealloc s + 1\<rparr>"
    by (simp add: pgsp_entry_dealloc_def Let_def victims_def decayed_def)
  ultimately show ?thesis by blast
qed

lemma entry_remove_alloced:
  "alloced_size (pgsp_entry_remove e s) = alloced_size s - entry_bytes e"
  by (simp add: pgsp_entry_remove_def Let_def entry_bytes_def free_release_def PGSP_FREEDSMEM_def)

lemma fold_entry_remove_alloced:
  "alloced_size (fold pgsp_entry_remove vs s) = alloced_size s - sum_list (map entry_bytes vs)"
  by (induction vs arbitrary: s) (simp_all add: entry_remove_alloced)

lemma entry_dealloc_alloced:
  "alloced_size (pgsp_entry_dealloc s) = alloced_size s - sum_list (map entry_bytes (victims s))"
  by (simp add: pgsp_entry_dealloc_def Let_def fold_entry_remove_alloced victims_def decayed_def)

lemma free_release_area:
  "pgsp_area (free_release p n s) = dsa_free (pgsp_area s) p"
  by (simp add: free_release_def PGSP_FREEDSMEM_def)

lemma entry_remove_area:
  "pgsp_area (pgsp_entry_remove e s) =
     (pgsp_area s)\<lparr>cells := filter (\<lambda>c. fst c \<notin> set (entry_blocks e)) (cells (pgsp_area s))\<rparr>"
  by (simp add: pgsp_entry_remove_def Let_def entry_blocks_def free_release_area dsa_free_def
      conj_commute)

lemma fold_entry_remove_area:
  "pgsp_area (fold pgsp_entry_remove vs s) =
     (pgsp_area s)\<lparr>cells := filter (\<lambda>c. fst c \<notin> set (concat (map entry_blocks vs)))
                                (cells (pgsp_area s))\<rparr>"
proof (induction vs arbitrary: s)
  case Nil
  then show ?case by simp
next
  case (Cons v vs)
  show ?case
    by (simp add: Cons.IH entry_remove_area conj_commute)
qed

lemma entry_dealloc_area:
  "pgsp_area (pgsp_entry_dealloc s) =
     (pgsp_area s)\<lparr>cells := filter (\<lambda>c. fst c \<notin> set (concat (map entry_blocks (victims s))))
                                (cells (pgsp_area s))\<rparr>"
  by (simp add: pgsp_entry_dealloc_def Let_def fold_entry_remove_area victims_def decayed_def)

lemma map_of_filter_fst:
  "map_of (filter (\<lambda>c. fst c \<notin> B) xs) q = (if q \<in> B then None else map_of xs q)"
  by (induction xs) auto

lemma map_of_filter_neq:
  "map_of (filter (\<lambda>c. fst c \<noteq> p) xs) q = (if q = p then None else map_of xs q)"
  by (induction xs) auto

lemma removeAll_Nil_D: "removeAll k xs = [] \<Longrightarrow> x \<in> set xs \<Longrightarrow> x = k"
  by (induction xs) (auto split: if_splits)

lemma registered_unregister:
  "set (registered (pgsp_entry_unregister_rdepend db cls obj k s) rk) =
     (if rk = (db, cls, obj) then set (registered s rk) - {k} else set (registered s rk))"
  by (auto simp: registered_def pgsp_entry_unregister_rdepend_def Let_def map_of_filter_neq
      split: option.splits dest: removeAll_Nil_D)

lemma registered_unregister_rels:
  "set (registered (unregister_rels db k objs s) rk) =
     (if rk \<in> (\<lambda>obj. (db, RELOID, obj)) ` set objs then set (registered s rk) - {k}
      else set (registered s rk))"
proof (induction objs arbitrary: s)
  case Nil
  then show ?case by (simp add: unregister_rels_def)
next
  case (Cons obj objs)
  have "unregister_rels db k (obj # objs) s =
          unregister_rels db k objs (pgsp_entry_unregister_rdepend db RELOID obj k s)"
    by (simp add: unregister_rels_def)
  then show ?case
    by (auto simp: Cons.IH registered_unregister)
qed

lemma registered_unregister_rdeps:
  "set (registered (unregister_rdeps k rs s) rk) =
     (if rk \<in> set rs then set (registered s rk) - {k} else set (registered s rk))"
proof (induction rs arbitrary: s)
  case Nil
  then show ?case by (simp add: unregister_rdeps_def)
next
  case (Cons r rs)
  have "unregister_rdeps k (r # rs) s =
          unregister_rdeps k rs
            (pgsp_entry_unregister_rdepend (fst r) (fst (snd r)) (snd (snd r)) k s)"
    by (simp add: unregister_rdeps_def)
  then show ?case
    by (auto simp: Cons.IH registered_unregister)
qed

lemma registered_free_release [simp]:
  "registered (free_release p n s) = registered s"
  by (rule ext) (simp add: registered_def)

lemma registered_hash_update [simp]:
  "registered (s\<lparr>pgsp_hash := x\<rparr>) = registered s"
  by (rule ext) (simp add: registered_def)

lemma oid_array_free:
  "q \<noteq> p \<Longrightarrow> oid_array (dsa_free a p) q = oid_array a q"
  by (simp add: oid_array_def dsa_get_address_def dsa_free_def map_of_filter_neq)

lemma rdepend_array_free:
  "q \<noteq> p \<Longrightarrow> rdepend_array (dsa_free a p) q = rdepend_array a q"
  by (simp add: rdepend_array_def dsa_get_address_def dsa_free_def map_of_filter_neq)

lemma entry_deps_filter:
  assumes "set (entry_blocks w) \<inter> B = {}"
  shows "entry_deps (a\<lparr>cells := filter (\<lambda>c. fst c \<notin> B) (cells a)\<rparr>) w = entry_deps a w"
  using assms
  by (auto simp: entry_deps_def entry_blocks_def oid_array_def rdepend_array_def
      dsa_get_address_def map_of_filter_fst split: if_splits)

lemma entry_remove_registered:
  assumes "distinct (entry_blocks e)"
  shows "set (registered (pgsp_entry_remove e s) rk) =
           (if rk \<in> set (entry_deps (pgsp_area s) e) then set (registered s rk) - {key e}
            else set (registered s rk))"
proof -
  have r: "0 < num_rels e \<Longrightarrow> plan e \<noteq> InvalidDsaPointer \<Longrightarrow> rels e \<noteq> plan e"
    and d1: "0 < num_rdeps e \<Longrightarrow> plan e \<noteq> InvalidDsaPointer \<Longrightarrow> rdeps e \<noteq> plan e"
    and d2: "0 < num_rdeps e \<Longrightarrow> 0 < num_rels e \<Longrightarrow> rdeps e \<noteq> rels e"
    using assms by (auto simp: entry_blocks_def split: if_splits)
  show ?thesis
    using r d1 d2
    by (auto simp: pgsp_entry_remove_def Let_def entry_deps_def registered_unregister_rels
        registered_unregister_rdeps free_release_area oid_array_free rdepend_array_free)
qed

lemma fold_entry_remove_registered:
  assumes "distinct (map key vs)"
    and "\<forall>v \<in> set vs. distinct (entry_blocks v)"
    and "\<forall>v \<in> set vs. \<forall>w \<in> set vs.
           key v \<noteq> key w \<longrightarrow> set (entry_blocks v) \<inter> set (entry_blocks w) = {}"
  shows "set (registered (fold pgsp_entry_remove vs s) rk) =
           set (registered s rk) -
           {key v |v. v \<in> set vs \<and> rk \<in> set (entry_deps (pgsp_area s) v)}"
  using assms
proof (induction vs arbitrary: s)
  case Nil
  then show ?case by simp
next
  case (Cons v vs)
  let ?t = "pgsp_entry_remove v s"
  have dv: "distinct (entry_blocks v)" using Cons.prems(2) by simp
  have same: "entry_deps (pgsp_area ?t) w = entry_deps (pgsp_area s) w" if "w \<in> set vs" for w
  proof -
    have "key w \<noteq> key v" using that Cons.prems(1) by (auto simp: image_iff)
    then have "set (entry_blocks w) \<inter> set (entry_blocks v) = {}"
      using Cons.prems(3) that by simp
    then show ?thesis
      unfolding entry_remove_area by (rule entry_deps_filter)
  qed
  have ih: "set (registered (fold pgsp_entry_remove vs ?t) rk) =
              set (registered ?t rk) -
              {key w |w. w \<in> set vs \<and> rk \<in> set (entry_deps (pgsp_area ?t) w)}"
    using Cons.prems by (intro Cons.IH) simp_all
  have "{key w |w. w \<in> set vs \<and> rk \<in> set (entry_deps (pgsp_area ?t) w)} =
        {key w |w. w \<in> set vs \<and> rk \<in> set (entry_deps (pgsp_area s) w)}"
    using same by auto
  then show ?case
    using ih by (auto simp: entry_remove_registered [OF dv])
qed

lemma entry_notions_usage [simp]:
  "entry_blocks (e\<lparr>usage := u\<rparr>) = entry_blocks e"
  "entry_bytes (e\<lparr>usage := u\<rparr>) = entry_bytes e"
  "entry_deps a (e\<lparr>usage := u\<rparr>) = entry_deps a e"
  by (simp_all add: entry_blocks_def entry_bytes_def entry_deps_def)

lemma blocks_apart_decayed:
  "blocks_apart (pgsp_hash s) \<Longrightarrow> blocks_apart (decayed s)"
  by (auto simp: blocks_apart_def decayed_def)

lemma victims_keys_distinct:
  assumes "distinct (map key (pgsp_hash s))"
  shows "distinct (map key (victims s))"
proof -
  have "inj_on key (set (decayed s))"
    using assms distinct_map [of key "decayed s"] by simp
  then have "inj_on key (set (victims s))"
    using victims_subset [of s] by (rule inj_on_subset)
  then show ?thesis
    using distinct_victims [OF assms] by (simp add: distinct_map)
qed

lemma registered_cong:
  "pgsp_rdepend s' = pgsp_rdepend s \<Longrightarrow> registered s' = registered s"
  by (rule ext) (simp add: registered_def)

lemma entry_dealloc_registered:
  assumes "distinct (map key (pgsp_hash s))" and "blocks_apart (pgsp_hash s)"
  shows "set (registered (pgsp_entry_dealloc s) rk) =
           set (registered s rk) -
           {key v |v. v \<in> set (victims s) \<and> rk \<in> set (entry_deps (pgsp_area s) v)}"
proof -
  let ?s1 = "s\<lparr>pgsp_hash := decayed s\<rparr>"
  let ?s2 = "if 0 < length (sort_key usage (decayed s))
             then ?s1\<lparr>cur_median_usage :=
                        usage (sort_key usage (decayed s) ! (length (sort_key usage (decayed s)) div 2))\<rparr>
             else ?s1"
  have eq: "pgsp_entry_dealloc s =
              (fold pgsp_entry_remove (victims s) ?s2)\<lparr>dealloc := dealloc s + 1\<rparr>"
    by (simp add: pgsp_entry_dealloc_def Let_def victims_def decayed_def)
  have a: "pgsp_area ?s2 = pgsp_area s" by simp
  have r: "registered ?s2 = registered s" by (rule registered_cong) simp
  have ba: "blocks_apart (decayed s)" by (rule blocks_apart_decayed [OF assms(2)])
  have v1: "\<forall>v \<in> set (victims s). distinct (entry_blocks v)"
    using ba victims_subset [of s] by (auto simp: blocks_apart_def)
  have v2: "\<forall>v \<in> set (victims s). \<forall>w \<in> set (victims s).
              key v \<noteq> key w \<longrightarrow> set (entry_blocks v) \<inter> set (entry_blocks w) = {}"
    using ba victims_subset [of s] unfolding blocks_apart_def by blast
  have "registered (pgsp_entry_dealloc s) = registered (fold pgsp_entry_remove (victims s) ?s2)"
    unfolding eq by (rule registered_cong) simp
  then show ?thesis
    using fold_entry_remove_registered [OF victims_keys_distinct [OF assms(1)] v1 v2, of ?s2 rk]
    unfolding a r by simp
qed

lemma nvictims_wraps: "nvictims 429496730 = 10"
  by (simp add: nvictims_def wrap_int32_def c_div_def USAGE_DEALLOC_PERCENT_def)

text \<open>
  C5 (as amended).  An eviction pass over a table of \<open>N\<close> entries with distinct keys, in
  which no two live blocks of the arena share an address and \<open>N\<close> is below 429496730 (from
  there on the 32-bit product \<open>N \<sqdot> 5\<close> wraps around), multiplies every entry's usage by 0.99,
  orders the entries by ascending usage, and removes the first
  \<open>min N (max 10 (5 N div 100))\<close> entries of that order: the count is rounded down, not
  up, and cannot exceed \<open>N\<close>.  Every removed entry has a usage no greater than every entry
  that stays.  Each removed entry is removed in full: it leaves the table, its plan and its
  two dependency arrays are freed in the arena, their bytes are subtracted from
  \<^verbatim>\<open>alloced_size\<close>, and its key is taken out of the reverse index under every dependency
  that its arrays list.  The \<^verbatim>\<open>dealloc\<close> counter grows by one.
\<close>

theorem entry_dealloc_pass:
  assumes "distinct (map key (pgsp_hash s))"
    and "blocks_apart (pgsp_hash s)"
    and "length (pgsp_hash s) < 429496730"
  shows "decayed s = map (\<lambda>e. e\<lparr>usage := usage e * 0.99\<rparr>) (pgsp_hash s) \<and>
         sorted (map usage (sort_key usage (decayed s))) \<and>
         victims s = take (min (max 10 (length (pgsp_hash s) * 5 div 100)) (length (pgsp_hash s)))
                       (sort_key usage (decayed s)) \<and>
         pgsp_hash (pgsp_entry_dealloc s) =
           filter (\<lambda>x. x \<notin> set (victims s)) (decayed s) \<and>
         length (pgsp_hash (pgsp_entry_dealloc s)) =
           length (pgsp_hash s) -
           min (max 10 (length (pgsp_hash s) * 5 div 100)) (length (pgsp_hash s)) \<and>
         (\<forall>v \<in> set (victims s). \<forall>x \<in> set (pgsp_hash (pgsp_entry_dealloc s)).
            usage v \<le> usage x) \<and>
         pgsp_area (pgsp_entry_dealloc s) =
           (pgsp_area s)\<lparr>cells :=
              filter (\<lambda>c. fst c \<notin> set (concat (map entry_blocks (victims s))))
                (cells (pgsp_area s))\<rparr> \<and>
         alloced_size (pgsp_entry_dealloc s) =
           alloced_size s - sum_list (map entry_bytes (victims s)) \<and>
         (\<forall>rk. set (registered (pgsp_entry_dealloc s) rk) =
                 set (registered s rk) -
                 {key v |v. v \<in> set (victims s) \<and> rk \<in> set (entry_deps (pgsp_area s) v)}) \<and>
         dealloc (pgsp_entry_dealloc s) = dealloc s + 1"
proof -
  note n = nvictims_eq [OF assms(3)]
  have c1: "decayed s = map (\<lambda>e. e\<lparr>usage := usage e * 0.99\<rparr>) (pgsp_hash s)"
    by (simp add: decayed_def USAGE_DECREASE_FACTOR_def)
  have c2: "sorted (map usage (sort_key usage (decayed s)))"
    by (rule sorted_sort_key)
  have c3: "victims s =
              take (min (max 10 (length (pgsp_hash s) * 5 div 100)) (length (pgsp_hash s)))
                (sort_key usage (decayed s))"
    by (simp add: victims_def n)
  have c5: "pgsp_hash (pgsp_entry_dealloc s) =
              filter (\<lambda>x. x \<notin> set (victims s)) (decayed s)"
    by (rule entry_dealloc_hash_distinct [OF assms(1)])
  have c6: "length (pgsp_hash (pgsp_entry_dealloc s)) =
              length (pgsp_hash s) -
              min (max 10 (length (pgsp_hash s) * 5 div 100)) (length (pgsp_hash s))"
    using entry_dealloc_length [OF assms(1)] by (simp add: n)
  have c7: "\<forall>v \<in> set (victims s). \<forall>x \<in> set (pgsp_hash (pgsp_entry_dealloc s)).
              usage v \<le> usage x"
  proof (intro ballI)
    fix v x
    assume v: "v \<in> set (victims s)" and x: "x \<in> set (pgsp_hash (pgsp_entry_dealloc s))"
    from x have "x \<in> set (decayed s)" and "x \<notin> set (victims s)"
      unfolding c5 by simp_all
    then have "x \<in> set (drop (nvictims (length (pgsp_hash s))) (sort_key usage (decayed s)))"
      by (rule survivors_in_drop)
    moreover have "v \<in> set (take (nvictims (length (pgsp_hash s))) (sort_key usage (decayed s)))"
      using v by (simp add: victims_def)
    ultimately show "usage v \<le> usage x"
      using sorted_take_le_drop [OF c2] by blast
  qed
  have c8: "\<forall>rk. set (registered (pgsp_entry_dealloc s) rk) =
                 set (registered s rk) -
                 {key v |v. v \<in> set (victims s) \<and> rk \<in> set (entry_deps (pgsp_area s) v)}"
    using entry_dealloc_registered [OF assms(1,2)] by blast
  show ?thesis
    by (intro conjI c1 c2 c3 c5 c6 c7 entry_dealloc_area entry_dealloc_alloced c8
        entry_dealloc_counter)
qed

lemma twelve_distinct: "distinct (map key (pgsp_hash twelve_state))"
  by (simp add: twelve_state_def example_state_def example_entry_def example_key_def)

lemma twelve_blocks_apart: "blocks_apart (pgsp_hash twelve_state)"
  by (simp add: twelve_state_def example_state_def example_entry_def blocks_apart_def
      entry_blocks_def InvalidDsaPointer_def)

lemma cached_victims:
  "victims (cached_state cached_entry) = [cached_entry\<lparr>usage := 0.99\<rparr>]"
  by (simp add: victims_def decayed_def nvictims_def wrap_int32_def c_div_def
      USAGE_DEALLOC_PERCENT_def USAGE_DECREASE_FACTOR_def cached_state_def stocked_state_def
      cached_entry_def)

theorem entry_dealloc_pass_witness:
  "distinct (map key (pgsp_hash twelve_state)) \<and> blocks_apart (pgsp_hash twelve_state) \<and>
   length (pgsp_hash twelve_state) < 429496730 \<and>
   length (pgsp_hash (pgsp_entry_dealloc twelve_state)) = 2 \<and>
   dealloc (pgsp_entry_dealloc twelve_state) = 1 \<and>
   distinct (map key (pgsp_hash (cached_state cached_entry))) \<and>
   blocks_apart (pgsp_hash (cached_state cached_entry)) \<and>
   length (pgsp_hash (cached_state cached_entry)) < 429496730 \<and>
   pgsp_hash (pgsp_entry_dealloc (cached_state cached_entry)) = [] \<and>
   cells (pgsp_area (cached_state cached_entry)) =
     [(1, 5, PlanBlob ''PLAN''), (2, 4, OidArray [16384])] \<and>
   cells (pgsp_area (pgsp_entry_dealloc (cached_state cached_entry))) = [] \<and>
   alloced_size (cached_state cached_entry) = 9 \<and>
   alloced_size (pgsp_entry_dealloc (cached_state cached_entry)) = 0 \<and>
   registered (cached_state cached_entry) (1, RELOID, 16384) = [key cached_entry] \<and>
   set (registered (pgsp_entry_dealloc (cached_state cached_entry)) (1, RELOID, 16384)) = {}"
proof -
  have l: "length (pgsp_hash twelve_state) = 12" and d: "dealloc twelve_state = 0"
    by (simp_all add: twelve_state_def example_state_def)
  have lt: "length (pgsp_hash twelve_state) < 429496730" using l by simp
  note t = entry_dealloc_pass [OF twelve_distinct twelve_blocks_apart lt]
  have t1: "length (pgsp_hash (pgsp_entry_dealloc twelve_state)) = 2"
    using t [THEN conjunct2, THEN conjunct2, THEN conjunct2, THEN conjunct2, THEN conjunct1]
    unfolding l by simp
  have t2: "dealloc (pgsp_entry_dealloc twelve_state) = 1"
    using t [THEN conjunct2, THEN conjunct2, THEN conjunct2, THEN conjunct2, THEN conjunct2,
             THEN conjunct2, THEN conjunct2, THEN conjunct2, THEN conjunct2]
    unfolding d by simp
  let ?c = "cached_state cached_entry"
  have h1: "distinct (map key (pgsp_hash ?c))"
    and h2: "blocks_apart (pgsp_hash ?c)"
    and h3: "length (pgsp_hash ?c) < 429496730"
    by (simp_all add: cached_state_def stocked_state_def cached_entry_def blocks_apart_def
        entry_blocks_def InvalidDsaPointer_def)
  note u = entry_dealloc_pass [OF h1 h2 h3]
  have dc: "decayed ?c = [cached_entry\<lparr>usage := 0.99\<rparr>]"
    by (simp add: decayed_def USAGE_DECREASE_FACTOR_def cached_state_def stocked_state_def
        cached_entry_def)
  have bl: "entry_blocks cached_entry = [1, 2]" and bt: "entry_bytes cached_entry = 9"
    by (simp_all add: entry_blocks_def entry_bytes_def cached_entry_def InvalidDsaPointer_def
        sizeof_Oid_def)
  have ce: "cells (pgsp_area ?c) = [(1, 5, PlanBlob ''PLAN''), (2, 4, OidArray [16384])]"
    and al: "alloced_size ?c = 9"
    and rg: "registered ?c (1, RELOID, 16384) = [key cached_entry]"
    by (simp_all add: cached_state_def stocked_state_def registered_def cached_entry_def)
  have dp: "entry_deps (pgsp_area ?c) cached_entry = [(1, RELOID, 16384)]"
    by (simp add: entry_deps_def cached_entry_def cached_state_def stocked_state_def
        oid_array_def dsa_get_address_def)
  have u1: "pgsp_hash (pgsp_entry_dealloc ?c) = []"
    using u [THEN conjunct2, THEN conjunct2, THEN conjunct2, THEN conjunct1]
    by (simp add: cached_victims dc)
  have u2: "cells (pgsp_area (pgsp_entry_dealloc ?c)) = []"
    using u [THEN conjunct2, THEN conjunct2, THEN conjunct2, THEN conjunct2, THEN conjunct2,
             THEN conjunct2, THEN conjunct1]
    by (simp add: cached_victims bl ce)
  have u3: "alloced_size (pgsp_entry_dealloc ?c) = 0"
    using u [THEN conjunct2, THEN conjunct2, THEN conjunct2, THEN conjunct2, THEN conjunct2,
             THEN conjunct2, THEN conjunct2, THEN conjunct1]
    by (simp add: cached_victims bt al)
  have u4: "set (registered (pgsp_entry_dealloc ?c) (1, RELOID, 16384)) = {}"
    using u [THEN conjunct2, THEN conjunct2, THEN conjunct2, THEN conjunct2, THEN conjunct2,
             THEN conjunct2, THEN conjunct2, THEN conjunct2, THEN conjunct1,
             THEN spec, of "(1, RELOID, 16384)"]
    by (simp add: cached_victims dp rg)
  show ?thesis
    by (intro conjI twelve_distinct twelve_blocks_apart lt t1 t2 h1 h2 h3 u1 ce u2 al u3 rg u4)
qed

lemma example_entries_distinct:
  assumes "n \<le> 1000"
  shows "distinct (map key (example_entries n))"
proof -
  have "inj_on (\<lambda>i. key (example_entry (of_nat i) 1)) {0..<n}"
  proof (rule inj_onI)
    fix i j assume i: "i \<in> {0..<n}" and j: "j \<in> {0..<n}"
      and eq: "key (example_entry (of_nat i) 1) = key (example_entry (of_nat j) 1)"
    from eq have "(of_nat i :: 64 word) = of_nat j"
      by (simp add: example_entry_def example_key_def)
    then have "take_bit 64 i = take_bit 64 j"
      by (simp add: word_of_nat_eq_iff)
    moreover have "i < 2 ^ 64" "j < 2 ^ 64" using i j assms by simp_all
    ultimately show "i = j" by (simp add: take_bit_nat_eq_self)
  qed
  then show ?thesis
    by (simp add: example_entries_def distinct_map comp_def)
qed

text \<open>
  The claim as first stated (\<open>max 10 \<lceil>0.05 N\<rceil>\<close> entries removed) fails on a table of 201
  entries: it would have 11 entries removed, and the pass removes 10.
\<close>

theorem entry_dealloc_pass_counterexample:
  "length (pgsp_hash (example_state (example_entries 201))) = 201 \<and>
   length (pgsp_hash (pgsp_entry_dealloc (example_state (example_entries 201)))) = 191 \<and>
   nat (max 10 \<lceil>0.05 * real 201\<rceil>) = 11"
proof -
  have d: "distinct (map key (pgsp_hash (example_state (example_entries 201))))"
    using example_entries_distinct [of 201] by (simp add: example_state_def)
  have l: "length (pgsp_hash (example_state (example_entries 201))) = 201"
    by (simp add: example_state_def example_entries_def)
  have "nat (max 10 \<lceil>0.05 * real 201\<rceil>) = 11"
    by (simp add: ceiling_eq_iff)
  then show ?thesis
    using entry_dealloc_length [OF d] l by (simp add: nvictims_eq)
qed

section \<open>Median usage and the usage of a new entry\<close>

lemma find_append_new:
  "find P xs = None \<Longrightarrow> P e \<Longrightarrow> find P (xs @ [e]) = Some e"
  by (induction xs) (auto split: if_splits)

lemma entry_alloc_body_new:
  assumes "hash_search_find k s = None"
  shows "fst (entry_alloc_body h k c pt nc cc gc s) =
           s\<lparr>pgsp_hash := pgsp_hash s @
                [(init_entry k c pt nc cc gc)\<lparr>plan := c_plan c, len := c_len c, rels := c_rels c,
                    num_rels := c_num_rels c, rdeps := c_rdeps c, num_rdeps := c_num_rdeps c\<rparr>]\<rparr>"
  using assms
  by (simp add: entry_alloc_body_def alloc_attach_def alloc_free_plan_def
      alloc_update_rdepend_def alloc_free_arrays_def Let_def transfer_plan_def
      transfer_rels_def transfer_rdeps_def)

text \<open>
  C6 (as amended).  An eviction pass over a non-empty table records as
  \<^verbatim>\<open>cur_median_usage\<close> the usage of the entry at index \<open>N div 2\<close> of the decayed, sorted
  entries.  An entry created by \<^verbatim>\<open>pgsp_entry_alloc\<close> (its key is not in the table once
  room has been made) starts with usage \<^verbatim>\<open>PGSP_USAGE_INIT\<close>, which is 1, whatever
  \<^verbatim>\<open>cur_median_usage\<close> holds; the recorded median is left as it is.
\<close>

theorem median_and_initial_usage:
  "(pgsp_hash s \<noteq> [] \<longrightarrow>
      cur_median_usage (pgsp_entry_dealloc s) =
        usage (sort_key usage (decayed s) ! (length (pgsp_hash s) div 2))) \<and>
   (make_space g s = Some sm \<and> hash_search_find k sm = None \<longrightarrow>
      (\<exists>s' c' e. pgsp_entry_alloc g h k c pt nc cc gc s = Some (s', c') \<and>
                 hash_search_find k s' = Some e \<and> usage e = 1 \<and>
                 cur_median_usage s' = cur_median_usage sm))"
proof (intro conjI impI)
  assume "pgsp_hash s \<noteq> []"
  then show "cur_median_usage (pgsp_entry_dealloc s) =
               usage (sort_key usage (decayed s) ! (length (pgsp_hash s) div 2))"
    by (simp add: entry_dealloc_median)
next
  assume a: "make_space g s = Some sm \<and> hash_search_find k sm = None"
  let ?e = "(init_entry k c pt nc cc gc)\<lparr>plan := c_plan c, len := c_len c, rels := c_rels c,
              num_rels := c_num_rels c, rdeps := c_rdeps c, num_rdeps := c_num_rdeps c\<rparr>"
  let ?r = "entry_alloc_body h k c pt nc cc gc sm"
  have r: "fst ?r = sm\<lparr>pgsp_hash := pgsp_hash sm @ [?e]\<rparr>"
    using a by (simp add: entry_alloc_body_new)
  have "pgsp_entry_alloc g h k c pt nc cc gc s = Some (fst ?r, snd ?r)"
    using a by (simp add: pgsp_entry_alloc_def)
  moreover have "hash_search_find k (fst ?r) = Some ?e"
    using a unfolding r hash_search_find_def
    by (simp add: find_append_new init_entry_def)
  moreover have "usage ?e = 1" by (simp add: init_entry_def PGSP_USAGE_INIT_def)
  moreover have "cur_median_usage (fst ?r) = cur_median_usage sm" unfolding r by simp
  ultimately show "\<exists>s' c' e. pgsp_entry_alloc g h k c pt nc cc gc s = Some (s', c') \<and>
                 hash_search_find k s' = Some e \<and> usage e = 1 \<and>
                 cur_median_usage s' = cur_median_usage sm"
    by blast
qed

lemma dealloc_full:
  "pgsp_hash (pgsp_entry_dealloc full_state) = [] \<and>
   cur_median_usage (pgsp_entry_dealloc full_state) = 1.98"
  by (simp add: full_state_def example_state_def example_entry_def example_key_def
      pgsp_entry_dealloc_def Let_def nvictims_def wrap_int32_def c_div_def
      USAGE_DEALLOC_PERCENT_def USAGE_DECREASE_FACTOR_def
      pgsp_entry_remove_def InvalidDsaPointer_def)

lemma make_space_full:
  "make_space example_gucs full_state = Some (pgsp_entry_dealloc full_state)"
  apply (subst make_space.simps)
  apply (simp add: example_gucs_def)
  apply (simp add: full_state_def example_state_def)
  apply (subst make_space.simps)
  apply (simp add: example_gucs_def dealloc_full [unfolded full_state_def example_state_def])
  done

theorem median_and_initial_usage_witness:
  "pgsp_hash full_state \<noteq> [] \<and>
   make_space example_gucs full_state = Some (pgsp_entry_dealloc full_state) \<and>
   hash_search_find (example_key 6) (pgsp_entry_dealloc full_state) = None \<and>
   cur_median_usage (pgsp_entry_dealloc full_state) = 1.98 \<and>
   (\<exists>s' c' e. pgsp_entry_alloc example_gucs example_host (example_key 6) empty_context 20 0 100 90
                 full_state = Some (s', c') \<and>
               hash_search_find (example_key 6) s' = Some e \<and> usage e = 1 \<and>
               cur_median_usage s' = 1.98)"
proof -
  have n: "pgsp_hash full_state \<noteq> []"
    by (simp add: full_state_def example_state_def)
  have f: "hash_search_find (example_key 6) (pgsp_entry_dealloc full_state) = None"
    by (simp add: hash_search_find_def dealloc_full)
  show ?thesis
    using median_and_initial_usage [of full_state example_gucs "pgsp_entry_dealloc full_state"
            "example_key 6" example_host empty_context 20 0 100 90]
          n f make_space_full dealloc_full
    by simp
qed


lemma hook_on_full_state:
  "pgsp_planner_hook example_gucs example_host example_query True 20 full_state =
     Inr (Planned, example_plan,
       \<lparr>cur_median_usage = 1.98, rdepend_num = 0, alloced_size = 9, dealloc = 1, stats_reset = 0,
        pgsp_hash =
          [\<lparr>key = \<lparr>userid = 0, dbid = 1, queryid = 42, constid = 0\<rparr>, len = 5, plan = 1,
            num_rels = 1, rels = 2, num_rdeps = 0, rdeps = 0, num_const = 0, plantime = 20,
            generic_cost = 100, discard = 0, lockers = 0, bypass = 0, usage = 1,
            total_custom_cost = 100, num_custom_plans = 1\<rparr>],
        pgsp_area = \<lparr>cells = [(1, 5, PlanBlob ''PLAN''), (2, 4, OidArray [16384])],
                      next_pointer = 2, capacity = 1000\<rparr>,
        pgsp_rdepend = [((1, RELOID, 16384), [\<lparr>userid = 0, dbid = 1, queryid = 42, constid = 0\<rparr>])],
        lock = None, pgsp_ro = False, attached = True\<rparr>)"
  apply (simp add: pgsp_planner_hook_def example_gucs_def example_host_def example_query_def
     full_state_def example_state_def example_entry_def example_key_def pgsp_attach_dsa_def
     bind_result_def LWLockAcquire_def LWLockRelease_def hook_lookup_def hash_search_find_def
     hook_plan_def pgsp_cache_plan_def pgsp_allocate_plan_def empty_context_def example_plan_def
     dsa_allocate_extended_def dsa_used_def example_area_def InvalidDsaPointer_def InvalidOid_def
     PGSP_USEDSMEM_def plan_relations_def list_append_unique_oid_def sizeof_Oid_def
     allocate_plan_locked_def oid_array_def dsa_get_address_def pgsp_entry_register_rdepend_def
     Let_def free_invals_def free_rels_def free_plan_def pgsp_entry_alloc_def)
  apply (subst make_space.simps)
  apply (simp add: pgsp_entry_dealloc_def Let_def nvictims_def wrap_int32_def c_div_def
      USAGE_DEALLOC_PERCENT_def
      USAGE_DECREASE_FACTOR_def pgsp_entry_remove_def InvalidDsaPointer_def)
  apply (subst make_space.simps)
  apply (simp add: entry_alloc_body_def hash_search_find_def Let_def init_entry_def
     alloc_attach_def alloc_free_plan_def alloc_update_rdepend_def alloc_free_arrays_def
     transfer_plan_def transfer_rels_def transfer_rdeps_def InvalidDsaPointer_def
     free_release_def LWLockRelease_def bind_result_def PGSP_USAGE_INIT_def
     ASSUMED_MEDIAN_INIT_def)
  done

text \<open>
  The claim as first stated (a new entry starts at \<^verbatim>\<open>cur_median_usage\<close>) fails for a
  request that misses a full table: the eviction pass it triggers records the median 1.98,
  and the entry it creates has usage 1.
\<close>

theorem median_and_initial_usage_counterexample:
  "\<not> isl (pgsp_planner_hook example_gucs example_host example_query True 20 full_state) \<and>
   dealloc (snd (snd (projr
     (pgsp_planner_hook example_gucs example_host example_query True 20 full_state)))) = 1 \<and>
   cur_median_usage (snd (snd (projr
     (pgsp_planner_hook example_gucs example_host example_query True 20 full_state)))) = 1.98 \<and>
   map usage (pgsp_hash (snd (snd (projr
     (pgsp_planner_hook example_gucs example_host example_query True 20 full_state))))) = [1]"
  by (simp add: hook_on_full_state)


section \<open>The capacity of the table\<close>

lemma wc_length:
  "length (pgsp_hash s') \<le> length (pgsp_hash s) \<Longrightarrow> within_capacity g s \<Longrightarrow>
   within_capacity g s'"
  by (simp add: within_capacity_def)

lemma wc_same:
  "pgsp_hash s' = pgsp_hash s \<Longrightarrow> within_capacity g s' = within_capacity g s"
  by (simp add: within_capacity_def)

lemma wc_bind:
  assumes "within_capacity g (final_state f r)"
    and "\<And>x. r = Inr x \<Longrightarrow> within_capacity g (f x) \<Longrightarrow>
           within_capacity g (final_state f' (k x))"
  shows "within_capacity g (final_state f' (bind_result r k))"
  using assms by (cases r) (auto simp: final_state_def bind_result_def)

lemma final_state_Inr [simp]: "final_state f (Inr x) = f x"
  by (simp add: final_state_def)

lemma final_state_Inl [simp]: "final_state f (Inl e) = snd e"
  by (simp add: final_state_def)

lemma wc_LWLockAcquire:
  assumes "others_keep_capacity g h" and "within_capacity g s"
  shows "within_capacity g (final_state id (LWLockAcquire h m s))"
  using assms
  by (auto simp: LWLockAcquire_def others_keep_capacity_def within_capacity_def)

lemma wc_LWLockRelease:
  assumes "within_capacity g s"
  shows "within_capacity g (final_state id (LWLockRelease s))"
  using assms by (auto simp: LWLockRelease_def within_capacity_def)

lemma wc_attach_dsa:
  assumes "others_keep_capacity g h" and "within_capacity g s"
  shows "within_capacity g (final_state id (pgsp_attach_dsa h s))"
  using assms
  by (auto simp: pgsp_attach_dsa_def bind_result_def LWLockAcquire_def LWLockRelease_def
      others_keep_capacity_def within_capacity_def split: sum.splits)

lemma wc_InrD:
  "within_capacity g (final_state f r) \<Longrightarrow> r = Inr x \<Longrightarrow> within_capacity g (f x)"
  by simp

lemma wc_InlD:
  "within_capacity g (final_state f r) \<Longrightarrow> r = Inl e \<Longrightarrow> within_capacity g (snd e)"
  by simp

lemma store_entry_frame [simp]:
  "length (pgsp_hash (store_entry e s)) = length (pgsp_hash s)"
  "lock (store_entry e s) = lock s"
  "pgsp_ro (store_entry e s) = pgsp_ro s"
  "attached (store_entry e s) = attached s"
  "pgsp_area (store_entry e s) = pgsp_area s"
  "pgsp_rdepend (store_entry e s) = pgsp_rdepend s"
  "alloced_size (store_entry e s) = alloced_size s"
  "dealloc (store_entry e s) = dealloc s"
  by (simp_all add: store_entry_def)

lemma wc_store_entry [simp]:
  "within_capacity g (store_entry e s) = within_capacity g s"
  by (simp add: within_capacity_def)

lemma wc_free_release [simp]:
  "within_capacity g (free_release p n s) = within_capacity g s"
  by (simp add: within_capacity_def)

lemma wc_USEDSMEM [simp]:
  "within_capacity g (PGSP_USEDSMEM n s) = within_capacity g s"
  by (simp add: within_capacity_def PGSP_USEDSMEM_def)

lemma wc_area_update [simp]:
  "within_capacity g (s\<lparr>pgsp_area := a\<rparr>) = within_capacity g s"
  by (simp add: within_capacity_def)

lemma wc_unregister [simp]:
  "within_capacity g (pgsp_entry_unregister_rdepend db cls obj k s) = within_capacity g s"
  "within_capacity g (unregister_rels db k xs s) = within_capacity g s"
  "within_capacity g (unregister_rdeps k ys s) = within_capacity g s"
  by (simp_all add: within_capacity_def)

lemma register_hash [simp]:
  "pgsp_hash (fst (pgsp_entry_register_rdepend g db cls obj k s)) = pgsp_hash s"
  by (simp add: pgsp_entry_register_rdepend_def Let_def)

lemma register_rels_hash [simp]:
  "pgsp_hash (snd (snd (register_rels g h k xs i s))) = pgsp_hash s"
proof (induction xs arbitrary: i s)
  case Nil
  then show ?case by simp
next
  case (Cons a xs)
  obtain s' ok where r: "pgsp_entry_register_rdepend g (MyDatabaseId h) RELOID a k s = (s', ok)"
    by (cases "pgsp_entry_register_rdepend g (MyDatabaseId h) RELOID a k s")
  have "pgsp_hash s' = pgsp_hash s"
    using register_hash [of g "MyDatabaseId h" RELOID a k s] r by simp
  then show ?case using Cons r by simp
qed

lemma register_invals_hash [simp]:
  "pgsp_hash (snd (snd (register_invals g h k items tmp s))) = pgsp_hash s"
proof (induction items arbitrary: tmp s)
  case Nil
  then show ?case by simp
next
  case (Cons item items)
  obtain s' ok where r: "pgsp_entry_register_rdepend g (MyDatabaseId h) (cacheId item)
                           (hashValue item) k s = (s', ok)"
    by (cases "pgsp_entry_register_rdepend g (MyDatabaseId h) (cacheId item) (hashValue item) k s")
  have "pgsp_hash s' = pgsp_hash s"
    using register_hash [of g "MyDatabaseId h" "cacheId item" "hashValue item" k s] r by simp
  then show ?case using Cons r by simp
qed

lemma unregister_invals_hash [simp]:
  "pgsp_hash (unregister_invals h k nb items i s) = pgsp_hash s"
  by (induction items arbitrary: i s) (simp_all add: Let_def)

lemma wc_unregister_invals [simp]:
  "within_capacity g (unregister_invals h k nb items i s) = within_capacity g s"
  by (simp add: within_capacity_def)

lemma wc_free_plan:
  assumes "within_capacity g s"
  shows "within_capacity g (final_state (\<lambda>r. snd (snd r)) (free_plan ok c s))"
  using assms
  by (auto simp: free_plan_def bind_result_def LWLockRelease_def Let_def within_capacity_def
      split: sum.splits)

lemma wc_free_rels:
  assumes "within_capacity g s"
  shows "within_capacity g (final_state (\<lambda>r. snd (snd r)) (free_rels h ok c k oids nb s))"
  unfolding free_rels_def Let_def using assms by (auto intro!: wc_free_plan)

lemma wc_free_invals:
  assumes "within_capacity g s"
  shows "within_capacity g
           (final_state (\<lambda>r. snd (snd r)) (free_invals h ok c k oids nb items nbi s))"
  unfolding free_invals_def Let_def using assms
  by (auto intro!: wc_free_rels)


lemma wc_register [simp]:
  "within_capacity g' (fst (pgsp_entry_register_rdepend g db cls obj k s)) = within_capacity g' s"
  "within_capacity g' (snd (snd (register_rels g h k xs i s))) = within_capacity g' s"
  "within_capacity g' (snd (snd (register_invals g h k items tmp s))) = within_capacity g' s"
  by (simp_all add: within_capacity_def)

lemma wc_allocate_plan_locked:
  assumes "others_keep_capacity g h" and "within_capacity g s"
  shows "within_capacity g
           (final_state (\<lambda>r. snd (snd r)) (allocate_plan_locked g h parse stmt c k oids s))"
  unfolding allocate_plan_locked_def
proof (rule wc_bind [where f = id])
  show "within_capacity g (final_state id (LWLockAcquire h LW_EXCLUSIVE s))"
    by (rule wc_LWLockAcquire [OF assms])
next
  fix s1 assume "within_capacity g (id s1)"
  then have w: "within_capacity g s1" by simp
  let ?array = "take (c_num_rels c) (oid_array (pgsp_area s1) (c_rels c))"
  obtain ok nb s2 where r1: "register_rels g h k ?array 0 s1 = (ok, nb, s2)"
    by (cases "register_rels g h k ?array 0 s1")
  have w2: "within_capacity g s2"
    using wc_register(2) [of g g h k ?array 0 s1] r1 w by simp
  let ?items = "query_dependencies parse @ invalItems stmt"
  obtain ok2 tmp s3 where r2: "register_invals g h k ?items [] s2 = (ok2, tmp, s3)"
    by (cases "register_invals g h k ?items [] s2")
  have w3: "within_capacity g s3"
    using wc_register(3) [of g g h k ?items "[]" s2] r2 w2 by simp
  show "within_capacity g (final_state (\<lambda>r. snd (snd r))
          (let array = take (c_num_rels c) (oid_array (pgsp_area s1) (c_rels c))
           in case register_rels g h k array 0 s1 of
             (ok, nb_alloced_rels, s2) \<Rightarrow>
               if \<not> ok then free_rels h False c k oids nb_alloced_rels s2
               else (let items = query_dependencies parse @ invalItems stmt
                     in case register_invals g h k items [] s2 of
                       (ok2, rdeps_tmp, s3) \<Rightarrow>
                         (let nb = length rdeps_tmp
                          in if \<not> ok2 then free_invals h False c k oids nb_alloced_rels items nb s3
                             else if nb > 0
                             then (case dsa_allocate_extended (pgsp_area s3)
                                          (sizeof_pgspRdependKey * nb) (RdependArray rdeps_tmp) of
                                     (a, r) \<Rightarrow>
                                       if r = InvalidDsaPointer
                                       then free_invals h False (c\<lparr>c_rdeps := r\<rparr>) k oids
                                              nb_alloced_rels items nb s3
                                       else free_invals h True (c\<lparr>c_rdeps := r, c_num_rdeps := nb\<rparr>)
                                              k oids nb_alloced_rels items nb
                                              (PGSP_USEDSMEM (nb * sizeof_pgspRdependKey)
                                                 (s3\<lparr>pgsp_area := a\<rparr>)))
                             else free_invals h True (c\<lparr>c_num_rdeps := nb\<rparr>) k oids
                                    nb_alloced_rels items nb s3))))"
    using w2 w3 r1 r2
    by (auto simp: Let_def split: prod.splits intro!: wc_free_rels wc_free_invals)
qed

lemma wc_allocate_plan:
  assumes "others_keep_capacity g h" and "within_capacity g s"
  shows "within_capacity g
           (final_state (\<lambda>r. snd (snd r)) (pgsp_allocate_plan g h parse stmt c k s))"
  unfolding pgsp_allocate_plan_def Let_def using assms
  by (auto split: prod.splits intro!: wc_free_plan wc_allocate_plan_locked)


lemma entry_dealloc_shrinks:
  assumes "pgsp_hash s \<noteq> []"
  shows "length (pgsp_hash (pgsp_entry_dealloc s)) < length (pgsp_hash s)"
proof -
  have "victims s \<noteq> []"
  proof
    assume "victims s = []"
    then have "length (victims s) = length ([] :: pgspEntry list)" by (rule arg_cong)
    then show False using assms nvictims_pos [of "length (pgsp_hash s)"] by simp
  qed
  then obtain v where v: "v \<in> set (victims s)" by (cases "victims s") auto
  then have "v \<in> set (decayed s)" using victims_subset by blast
  moreover have "\<not> key v \<notin> key ` set (victims s)" using v by simp
  ultimately have "length (filter (\<lambda>x. key x \<notin> key ` set (victims s)) (decayed s))
                     < length (decayed s)"
    by (rule length_filter_less)
  then show ?thesis by (simp add: entry_dealloc_hash)
qed

lemma make_space_returns:
  assumes "1 \<le> pgsp_max g"
  shows "\<exists>s'. make_space g s = Some s' \<and> int (length (pgsp_hash s')) < pgsp_max g \<and>
              lock s' = lock s \<and> pgsp_ro s' = pgsp_ro s \<and> attached s' = attached s"
proof (induction "length (pgsp_hash s)" arbitrary: s rule: less_induct)
  case less
  show ?case
  proof (cases "int (length (pgsp_hash s)) \<ge> pgsp_max g")
    case True
    then have "pgsp_hash s \<noteq> []" using assms by auto
    then have "length (pgsp_hash (pgsp_entry_dealloc s)) < length (pgsp_hash s)"
      by (rule entry_dealloc_shrinks)
    from less [OF this] obtain s' where
      "make_space g (pgsp_entry_dealloc s) = Some s'"
      "int (length (pgsp_hash s')) < pgsp_max g"
      "lock s' = lock s" "pgsp_ro s' = pgsp_ro s" "attached s' = attached s"
      by auto
    then show ?thesis using True by (subst make_space.simps) simp
  next
    case False
    then show ?thesis by (subst make_space.simps) simp
  qed
qed

lemma discard_prepared_hash [simp]:
  "pgsp_hash (fst (discard_prepared h k c s)) = pgsp_hash s"
  by (simp add: discard_prepared_def Let_def)

lemma fold_unregister_unless_hash [simp]:
  "pgsp_hash (fold (\<lambda>r st. if P r then st
                     else pgsp_entry_unregister_rdepend (db r) (cls r) (obj r) k st) xs s)
     = pgsp_hash s"
  by (induction xs arbitrary: s) simp_all

lemma reconcile_rels_hash [simp]:
  "pgsp_hash (snd (reconcile_rels h k ec s)) = pgsp_hash s"
  by (cases ec) (simp add: reconcile_rels_def Let_def)

lemma reconcile_rdeps_hash [simp]:
  "pgsp_hash (snd (reconcile_rdeps k ec s)) = pgsp_hash s"
  by (cases ec) (simp add: reconcile_rdeps_def Let_def)

lemma transfer_key [simp]:
  "key (fst (transfer_plan ec)) = key (fst ec)"
  "key (fst (transfer_rels ec)) = key (fst ec)"
  "key (fst (transfer_rdeps ec)) = key (fst ec)"
  by (simp_all add: transfer_plan_def transfer_rels_def transfer_rdeps_def case_prod_beta)

lemma reconcile_key [simp]:
  "key (fst (fst (reconcile_rels h k ec s))) = key (fst ec)"
  "key (fst (fst (reconcile_rdeps k ec s))) = key (fst ec)"
  by (simp_all add: reconcile_rels_def reconcile_rdeps_def case_prod_beta Let_def
      transfer_rels_def transfer_rdeps_def)

lemma hash_search_find_key:
  "hash_search_find k s = Some e \<Longrightarrow> key e = k"
  by (auto simp: hash_search_find_def find_Some_iff)

lemma alloc_attach_frame:
  assumes "\<And>e. found = Some e \<Longrightarrow> key e = k"
  shows "pgsp_hash (snd (alloc_attach h k c pt nc cc gc found s)) = pgsp_hash s"
    and "key (fst (fst (alloc_attach h k c pt nc cc gc found s))) = k"
proof -
  show "pgsp_hash (snd (alloc_attach h k c pt nc cc gc found s)) = pgsp_hash s"
    by (cases found) (simp_all add: alloc_attach_def case_prod_beta)
  show "key (fst (fst (alloc_attach h k c pt nc cc gc found s))) = k"
  proof (cases found)
    case None
    then show ?thesis by (simp add: alloc_attach_def init_entry_def)
  next
    case (Some e)
    then have "key e = k" by (rule assms)
    then show ?thesis using Some by (simp add: alloc_attach_def case_prod_beta)
  qed
qed

lemma alloc_free_plan_frame [simp]:
  "pgsp_hash (snd (alloc_free_plan ecs)) = pgsp_hash (snd ecs)"
  "key (fst (fst (alloc_free_plan ecs))) = key (fst (fst ecs))"
  by (simp_all add: alloc_free_plan_def case_prod_beta)

lemma alloc_update_rdepend_frame [simp]:
  "pgsp_hash (snd (alloc_update_rdepend h k found ecs)) = pgsp_hash (snd ecs)"
  "key (fst (fst (alloc_update_rdepend h k found ecs))) = key (fst (fst ecs))"
  by (simp_all add: alloc_update_rdepend_def case_prod_beta)

lemma alloc_free_arrays_frame [simp]:
  "pgsp_hash (snd (alloc_free_arrays ecs)) = pgsp_hash (snd ecs)"
  "key (fst (fst (alloc_free_arrays ecs))) = key (fst (fst ecs))"
  by (simp_all add: alloc_free_arrays_def case_prod_beta Let_def)

lemma entry_alloc_body_shape:
  "\<exists>e' s5. pgsp_hash s5 = pgsp_hash s \<and> key e' = k \<and>
     fst (entry_alloc_body h k c pt nc cc gc s) =
       (case hash_search_find k s of
          None \<Rightarrow> s5\<lparr>pgsp_hash := pgsp_hash s5 @ [e']\<rparr>
        | Some e \<Rightarrow> store_entry e' s5)"
proof -
  let ?found = "hash_search_find k s"
  let ?r = "alloc_free_arrays (alloc_update_rdepend h k ?found (alloc_free_plan
              (alloc_attach h k c pt nc cc gc ?found s)))"
  have fk: "\<And>e. ?found = Some e \<Longrightarrow> key e = k" by (rule hash_search_find_key)
  have "pgsp_hash (snd ?r) = pgsp_hash s"
    using alloc_attach_frame(1) [of ?found k h c pt nc cc gc s, OF fk] by simp
  moreover have "key (fst (fst ?r)) = k"
    using alloc_attach_frame(2) [of ?found k h c pt nc cc gc s, OF fk] by simp
  moreover have "fst (entry_alloc_body h k c pt nc cc gc s) =
       (case ?found of
          None \<Rightarrow> (snd ?r)\<lparr>pgsp_hash := pgsp_hash (snd ?r) @ [fst (fst ?r)]\<rparr>
        | Some e \<Rightarrow> store_entry (fst (fst ?r)) (snd ?r))"
    by (simp add: entry_alloc_body_def Let_def case_prod_beta)
  ultimately show ?thesis
    by (intro exI [of _ "fst (fst ?r)"] exI [of _ "snd ?r"] conjI)
qed

lemma entry_alloc_body_length:
  "length (pgsp_hash (fst (entry_alloc_body h k c pt nc cc gc s))) \<le> Suc (length (pgsp_hash s))"
proof -
  obtain e' s5 where "pgsp_hash s5 = pgsp_hash s"
    and "fst (entry_alloc_body h k c pt nc cc gc s) =
       (case hash_search_find k s of
          None \<Rightarrow> s5\<lparr>pgsp_hash := pgsp_hash s5 @ [e']\<rparr>
        | Some e \<Rightarrow> store_entry e' s5)"
    using entry_alloc_body_shape [of s k h c pt nc cc gc] by blast
  then show ?thesis by (simp split: option.splits)
qed

lemma find_store_entry:
  "key e' = k \<Longrightarrow> hash_search_find k s \<noteq> None \<Longrightarrow>
   hash_search_find k (store_entry e' s) = Some e'"
proof -
  assume k: "key e' = k" and f: "hash_search_find k s \<noteq> None"
  have "\<And>xs. find (\<lambda>e. key e = k) xs \<noteq> None \<Longrightarrow>
          find (\<lambda>e. key e = k) (map (\<lambda>x. if key x = key e' then e' else x) xs) = Some e'"
    subgoal for xs using k by (induction xs) auto
    done
  then show ?thesis using f by (simp add: hash_search_find_def store_entry_def)
qed

lemma entry_alloc_body_finds:
  "hash_search_find k (fst (entry_alloc_body h k c pt nc cc gc s)) \<noteq> None"
proof -
  obtain e' s5 where h5: "pgsp_hash s5 = pgsp_hash s" and ke: "key e' = k"
    and r: "fst (entry_alloc_body h k c pt nc cc gc s) =
       (case hash_search_find k s of
          None \<Rightarrow> s5\<lparr>pgsp_hash := pgsp_hash s5 @ [e']\<rparr>
        | Some e \<Rightarrow> store_entry e' s5)"
    using entry_alloc_body_shape [of s k h c pt nc cc gc] by blast
  have f5: "hash_search_find k s5 = hash_search_find k s"
    using h5 by (simp add: hash_search_find_def)
  show ?thesis
  proof (cases "hash_search_find k s")
    case None
    then have "find (\<lambda>e. key e = k) (pgsp_hash s5) = None"
      using f5 by (simp add: hash_search_find_def)
    then have "find (\<lambda>e. key e = k) (pgsp_hash s5 @ [e']) = Some e'"
      using ke by (rule find_append_new)
    then show ?thesis using r None by (simp add: hash_search_find_def)
  next
    case (Some e)
    then have "hash_search_find k (store_entry e' s5) = Some e'"
      using find_store_entry [OF ke, of s5] f5 by simp
    then show ?thesis using r Some by simp
  qed
qed


lemma fold_unregister_unless_lock [simp]:
  "lock (fold (\<lambda>r st. if P r then st
                 else pgsp_entry_unregister_rdepend (db r) (cls r) (obj r) k st) xs s)
     = lock s"
  by (induction xs arbitrary: s) simp_all

lemma discard_prepared_lock [simp]:
  "lock (fst (discard_prepared h k c s)) = lock s"
  by (simp add: discard_prepared_def Let_def)

lemma reconcile_lock [simp]:
  "lock (snd (reconcile_rels h k ec s)) = lock s"
  "lock (snd (reconcile_rdeps k ec s)) = lock s"
  by (simp_all add: reconcile_rels_def reconcile_rdeps_def case_prod_beta Let_def)

lemma alloc_stages_lock [simp]:
  "lock (snd (alloc_attach h k c pt nc cc gc found s)) = lock s"
  "lock (snd (alloc_free_plan ecs)) = lock (snd ecs)"
  "lock (snd (alloc_update_rdepend h k found ecs)) = lock (snd ecs)"
  "lock (snd (alloc_free_arrays ecs)) = lock (snd ecs)"
  by (simp_all add: alloc_attach_def alloc_free_plan_def alloc_update_rdepend_def
      alloc_free_arrays_def case_prod_beta Let_def split: option.splits)

lemma entry_alloc_body_lock [simp]:
  "lock (fst (entry_alloc_body h k c pt nc cc gc s)) = lock s"
  by (simp add: entry_alloc_body_def Let_def case_prod_beta split: option.splits)

lemma wc_entry_alloc:
  assumes "1 \<le> pgsp_max g"
  shows "\<exists>s' c'. pgsp_entry_alloc g h k c pt nc cc gc s = Some (s', c') \<and>
                 within_capacity g s' \<and> hash_search_find k s' \<noteq> None \<and> lock s' = lock s"
proof -
  obtain sm where m: "make_space g s = Some sm" and l: "int (length (pgsp_hash sm)) < pgsp_max g"
    and lk: "lock sm = lock s"
    using make_space_returns [OF assms, of s] by blast
  let ?r = "entry_alloc_body h k c pt nc cc gc sm"
  have "pgsp_entry_alloc g h k c pt nc cc gc s = Some (fst ?r, snd ?r)"
    using m by (simp add: pgsp_entry_alloc_def)
  moreover have "within_capacity g (fst ?r)"
    using entry_alloc_body_length [of h k c pt nc cc gc sm] l
    by (simp add: within_capacity_def)
  moreover have "hash_search_find k (fst ?r) \<noteq> None"
    by (rule entry_alloc_body_finds)
  moreover have "lock (fst ?r) = lock s"
    using lk by simp
  ultimately show ?thesis by blast
qed

lemma wc_cache_plan:
  assumes "1 \<le> pgsp_max g" and "others_keep_capacity g h" and "within_capacity g s"
  shows "within_capacity g
           (final_state id (pgsp_cache_plan g h parse custom generic k pt nc s))"
  unfolding pgsp_cache_plan_def
proof (rule wc_bind [where f = "\<lambda>r. snd (snd r)"])
  show "within_capacity g (final_state (\<lambda>r. snd (snd r))
          (pgsp_allocate_plan g h parse generic empty_context k s))"
    by (rule wc_allocate_plan [OF assms(2,3)])
next
  fix r :: "bool \<times> pgspDsaContext \<times> pgsp_state"
  assume w: "within_capacity g (snd (snd r))"
  obtain ok c s1 where r: "r = (ok, c, s1)" by (cases r)
  have w1: "within_capacity g s1" using w r by simp
  have "within_capacity g (final_state id
          (bind_result (LWLockAcquire h LW_EXCLUSIVE s1) (\<lambda>s2.
             case pgsp_entry_alloc g h k c pt nc
                    (pgsp_cached_plan_cost h custom True)
                    (pgsp_cached_plan_cost h generic False) s2 of
               None \<Rightarrow> Inl (NeverReturns, s2)
             | Some (s3, context') \<Rightarrow> LWLockRelease s3)))"
  proof (rule wc_bind [where f = id])
    show "within_capacity g (final_state id (LWLockAcquire h LW_EXCLUSIVE s1))"
      by (rule wc_LWLockAcquire [OF assms(2) w1])
  next
    fix s2
    obtain s3 c' where "pgsp_entry_alloc g h k c pt nc (pgsp_cached_plan_cost h custom True)
                    (pgsp_cached_plan_cost h generic False) s2 = Some (s3, c')"
      and "within_capacity g s3"
      using wc_entry_alloc [OF assms(1)] by blast
    then show "within_capacity g (final_state id
            (case pgsp_entry_alloc g h k c pt nc (pgsp_cached_plan_cost h custom True)
                    (pgsp_cached_plan_cost h generic False) s2 of
               None \<Rightarrow> Inl (NeverReturns, s2)
             | Some (s3, context') \<Rightarrow> LWLockRelease s3))"
      by (simp add: wc_LWLockRelease)
  qed
  then show "within_capacity g (final_state id
          (case r of (ok, context, s1) \<Rightarrow>
             if \<not> ok then Inr s1
             else bind_result (LWLockAcquire h LW_EXCLUSIVE s1) (\<lambda>s2.
                    case pgsp_entry_alloc g h k context pt nc
                           (pgsp_cached_plan_cost h custom True)
                           (pgsp_cached_plan_cost h generic False) s2 of
                      None \<Rightarrow> Inl (NeverReturns, s2)
                    | Some (s3, context') \<Rightarrow> LWLockRelease s3)))"
    using r w1 by simp
qed

lemma wc_accum_custom_plan:
  assumes "others_keep_capacity g h" and "within_capacity g s"
  shows "within_capacity g (final_state id (pgsp_accum_custom_plan h k cost s))"
  unfolding pgsp_accum_custom_plan_def
  apply (rule wc_bind [where f = id])
   apply (rule wc_LWLockAcquire [OF assms])
  apply (rule wc_LWLockRelease)
  apply (simp split: option.splits)
  done

lemma wc_hook_plan:
  assumes "1 \<le> pgsp_max g" and "others_keep_capacity g h" and "within_capacity g s"
  shows "within_capacity g (final_state (\<lambda>r. snd (snd r))
           (hook_plan g h parse bp ms k nc no_entry accum s))"
  using assms
  by (auto simp: hook_plan_def Let_def
      intro!: wc_bind [where f = id] wc_cache_plan wc_accum_custom_plan)

lemma wc_adjust_result [simp]:
  "within_capacity g (final_state (\<lambda>r. snd (snd r)) (Inr (t, p, s))) = within_capacity g s"
  by simp

lemma wc_hook_lookup:
  assumes "1 \<le> pgsp_max g" and "others_keep_capacity g h" and "within_capacity g s"
  shows "within_capacity g (final_state (\<lambda>r. snd (snd r))
           (hook_lookup g h parse bp ms k nc s))"
  using assms
  by (auto simp: hook_lookup_def Let_def split: option.splits prod.splits
      intro!: wc_bind [where f = id] wc_hook_plan wc_LWLockRelease wc_LWLockAcquire)

lemma wc_planner_hook:
  assumes "1 \<le> pgsp_max g" and "others_keep_capacity g h" and "within_capacity g s"
  shows "within_capacity g (final_state (\<lambda>r. snd (snd r))
           (pgsp_planner_hook g h parse bp ms s))"
  using assms
  by (auto simp: pgsp_planner_hook_def Let_def split: option.splits prod.splits
      intro!: wc_bind [where f = id] wc_hook_lookup wc_attach_dsa wc_LWLockAcquire)

lemma entry_remove_length_le:
  "length (pgsp_hash (pgsp_entry_remove e s)) \<le> length (pgsp_hash s)"
  by (simp add: entry_remove_hash)

lemma wc_entry_remove:
  "within_capacity g s \<Longrightarrow> within_capacity g (pgsp_entry_remove e s)"
  using entry_remove_length_le [of e s] by (simp add: within_capacity_def)

lemma wc_evict_entry:
  "within_capacity g s \<Longrightarrow> within_capacity g (evict_entry kind rk s)"
  by (auto simp: evict_entry_def Let_def split: option.splits intro!: wc_entry_remove)

lemma wc_fold_evict_entry:
  "within_capacity g s \<Longrightarrow> within_capacity g (fold (evict_entry kind) rkeys s)"
  by (induction rkeys arbitrary: s) (simp_all add: wc_evict_entry)

lemma wc_evict_by_oid:
  assumes "within_capacity g s"
  shows "within_capacity g (final_state id (pgsp_evict_by_oid h db cls obj kind s))"
  using assms
  by (auto simp: pgsp_evict_by_oid_def Let_def split: option.splits
      intro!: wc_fold_evict_entry)

lemma wc_evict_oids:
  assumes "within_capacity g s"
  shows "within_capacity g (final_state id (evict_oids h cls kind objs s))"
  using assms
  by (induction objs arbitrary: s)
     (auto intro!: wc_bind [where f = id] wc_evict_by_oid)

lemma wc_do_lock_scan:
  assumes "others_keep_capacity g h" and "within_capacity g (fst acc)"
  shows "within_capacity g (final_state fst (do_lock_scan h entries acc))"
  using assms(2)
proof (induction entries arbitrary: acc)
  case Nil
  then show ?case by simp
next
  case (Cons entry rest)
  show ?case
    using Cons.prems assms(1)
    by (auto simp: Let_def
        intro!: wc_bind [where f = id] wc_LWLockAcquire wc_LWLockRelease wc_evict_oids Cons.IH)
qed

lemma wc_utility_do_lock:
  assumes "others_keep_capacity g h" and "within_capacity g s"
  shows "within_capacity g (final_state fst (pgsp_utility_do_lock h c s))"
  using assms by (auto simp: pgsp_utility_do_lock_def intro!: wc_do_lock_scan)

lemma wc_post_scan:
  assumes "within_capacity g (fst acc)"
  shows "within_capacity g (final_state fst (post_scan h entries acc))"
  using assms
proof (induction entries arbitrary: acc)
  case Nil
  then show ?case by simp
next
  case (Cons entry rest)
  show ?case
    using Cons.prems
    by (auto intro!: wc_bind [where f = id] wc_evict_oids Cons.IH)
qed

lemma wc_reset_scan:
  "within_capacity g s \<Longrightarrow> within_capacity g (fst (reset_scan matches s))"
proof -
  have "\<And>xs st n. within_capacity g st \<Longrightarrow>
          within_capacity g (fst (fold (\<lambda>entry (st, num_remove).
             if matches entry then (pgsp_entry_remove entry st, num_remove + 1)
             else (st, num_remove)) xs (st, n)))"
    subgoal for xs st n
      by (induction xs arbitrary: st n) (simp_all add: wc_entry_remove)
    done
  then show "within_capacity g s \<Longrightarrow> within_capacity g (fst (reset_scan matches s))"
    by (simp add: reset_scan_def)
qed

lemma wc_field_updates [simp]:
  "within_capacity g (s\<lparr>dealloc := d\<rparr>) = within_capacity g s"
  "within_capacity g (s\<lparr>stats_reset := t\<rparr>) = within_capacity g s"
  "within_capacity g (s\<lparr>pgsp_ro := b\<rparr>) = within_capacity g s"
  "within_capacity g (s\<lparr>attached := b\<rparr>) = within_capacity g s"
  "within_capacity g (s\<lparr>lock := l\<rparr>) = within_capacity g s"
  by (simp_all add: within_capacity_def)

lemma wc_reset_internal:
  assumes "others_keep_capacity g h" and "within_capacity g s"
  shows "within_capacity g (final_state id (pg_shared_plans_reset_internal h uid db qid s))"
  using assms
  by (auto simp: pg_shared_plans_reset_internal_def Let_def
      intro!: wc_bind [where f = id] wc_attach_dsa wc_LWLockAcquire wc_LWLockRelease wc_reset_scan)


lemma wc_ProcessUtility:
  assumes "others_keep_capacity g h" and "within_capacity g s"
  shows "within_capacity g (final_state fst (pgsp_ProcessUtility h util post_exec ok s))"
  using assms
  by (auto simp: pgsp_ProcessUtility_def Let_def split: prod.splits
      intro!: wc_bind [where f = id] wc_bind [where f = fst] wc_attach_dsa wc_utility_do_lock
        wc_reset_internal wc_post_scan wc_LWLockAcquire wc_LWLockRelease)

lemma wc_run_call:
  assumes "1 \<le> pgsp_max g" and "others_keep_capacity g h" and "within_capacity g s"
  shows "within_capacity g (run_call g h c s)"
  using assms
  by (cases c)
     (simp_all add: LWLockReleaseAll_def wc_planner_hook wc_ProcessUtility wc_reset_internal)


text \<open>
  C2.  With \<^verbatim>\<open>pg_shared_plans.max\<close> at least 1 (its configured minimum is 5):
  \<^verbatim>\<open>pgsp_entry_alloc\<close>, the only place where an entry is added, always returns and leaves
  at most \<^verbatim>\<open>max\<close> entries, because the eviction loop runs before the insertion; and a
  table that holds at most \<^verbatim>\<open>max\<close> entries still does after any sequence of planner
  hook calls, utility hook calls and resets, whether they return or raise, the other
  backends doing the same.
\<close>

theorem capacity_invariant:
  assumes "1 \<le> pgsp_max g" and "others_keep_capacity g h" and "within_capacity g s"
  shows "(\<exists>s' c'. pgsp_entry_alloc g h k c pt nc cc gc s0 = Some (s', c') \<and>
                  within_capacity g s') \<and>
         within_capacity g (fold (run_call g h) calls s)"
proof
  show "\<exists>s' c'. pgsp_entry_alloc g h k c pt nc cc gc s0 = Some (s', c') \<and>
                 within_capacity g s'"
    using wc_entry_alloc [OF assms(1), of h k c pt nc cc gc s0] by blast
  show "within_capacity g (fold (run_call g h) calls s)"
    using assms(3)
  proof (induction calls arbitrary: s)
    case Nil
    then show ?case by simp
  next
    case (Cons c calls)
    have "within_capacity g (run_call g h c s)"
      by (rule wc_run_call [OF assms(1,2) Cons.prems])
    then show ?case using Cons.IH by simp
  qed
qed

lemma example_others_keep_capacity: "others_keep_capacity example_gucs example_host"
  by (simp add: others_keep_capacity_def example_host_def)

theorem capacity_invariant_witness:
  "1 \<le> pgsp_max example_gucs \<and> others_keep_capacity example_gucs example_host \<and>
   within_capacity example_gucs full_state \<and>
   within_capacity example_gucs
     (fold (run_call example_gucs example_host)
        [PlannerHook example_query True 20, Reset 0 0 0] full_state)"
proof -
  have m: "1 \<le> pgsp_max example_gucs" by (simp add: example_gucs_def)
  have w: "within_capacity example_gucs full_state"
    by (simp add: within_capacity_def example_gucs_def full_state_def example_state_def)
  show ?thesis
    using capacity_invariant [OF m example_others_keep_capacity w] m
      example_others_keep_capacity w
    by blast
qed

section \<open>Reset\<close>

lemma reset_fold:
  "fold (\<lambda>entry (st, num_remove).
           if P entry then (pgsp_entry_remove entry st, num_remove + 1)
           else (st, num_remove)) xs (st, n) = (st', n') \<Longrightarrow>
   pgsp_hash st' = filter (\<lambda>e. key e \<notin> key ` set (filter P xs)) (pgsp_hash st) \<and>
   n' = n + int (length (filter P xs)) \<and> lock st' = lock st"
proof (induction xs arbitrary: st n)
  case Nil
  then show ?case by simp
next
  case (Cons x xs)
  show ?case
  proof (cases "P x")
    case True
    with Cons.prems have "fold (\<lambda>entry (st, num_remove).
           if P entry then (pgsp_entry_remove entry st, num_remove + 1)
           else (st, num_remove)) xs (pgsp_entry_remove x st, n + 1) = (st', n')"
      by simp
    from Cons.IH [OF this] show ?thesis
      using True by (auto simp: entry_remove_hash intro: filter_cong)
  next
    case False
    with Cons.prems have "fold (\<lambda>entry (st, num_remove).
           if P entry then (pgsp_entry_remove entry st, num_remove + 1)
           else (st, num_remove)) xs (st, n) = (st', n')"
      by simp
    from Cons.IH [OF this] show ?thesis using False by simp
  qed
qed

lemma reset_scan_result:
  "pgsp_hash (fst (reset_scan P s)) =
     filter (\<lambda>e. key e \<notin> key ` set (filter P (pgsp_hash s))) (pgsp_hash s) \<and>
   snd (reset_scan P s) = int (length (filter P (pgsp_hash s))) \<and>
   lock (fst (reset_scan P s)) = lock s"
  using reset_fold [of P "pgsp_hash s" s 0 "fst (reset_scan P s)" "snd (reset_scan P s)"]
  by (simp add: reset_scan_def)

lemma reset_scan_distinct:
  assumes "distinct (map key (pgsp_hash s))"
  shows "pgsp_hash (fst (reset_scan P s)) = filter (\<lambda>e. \<not> P e) (pgsp_hash s)"
proof -
  have inj: "inj_on key (set (pgsp_hash s))" using assms by (simp add: distinct_map)
  have "filter (\<lambda>e. key e \<notin> key ` set (filter P (pgsp_hash s))) (pgsp_hash s) =
        filter (\<lambda>e. \<not> P e) (pgsp_hash s)"
  proof (rule filter_cong [OF refl])
    fix e assume "e \<in> set (pgsp_hash s)"
    then show "(key e \<notin> key ` set (filter P (pgsp_hash s))) = (\<not> P e)"
      using inj by (auto dest: inj_onD)
  qed
  then show ?thesis using reset_scan_result [of P s] by simp
qed

lemma reset_matches_iff:
  "reset_matches uid db qid e \<longleftrightarrow>
     (uid \<noteq> 0 \<longrightarrow> userid (key e) = uid) \<and> (db \<noteq> 0 \<longrightarrow> dbid (key e) = db) \<and>
     (qid \<noteq> 0 \<longrightarrow> queryid (key e) = qid)"
  by (auto simp: reset_matches_def)

lemma attach_then_acquire:
  assumes "lock s = None"
  shows "\<exists>s1. bind_result (pgsp_attach_dsa h s) (LWLockAcquire h m) = Inr s1 \<and>
              lock s1 = Some m \<and> table_when_locked h m s = s1"
  using assms
  by (auto simp: table_when_locked_def pgsp_attach_dsa_def bind_result_def LWLockAcquire_def
      LWLockRelease_def)

text \<open>
  C8.  A reset called by a backend that does not hold the lock returns, and removes from the
  table (as it is once the lock is taken, with its keys distinct) exactly the entries whose
  key matches every non-zero argument.  With all three arguments zero the table is left
  empty, \<^verbatim>\<open>dealloc\<close> is 0 and \<^verbatim>\<open>stats_reset\<close> is the current time.
\<close>

theorem reset_removes_matching:
  assumes "lock s = None"
    and "distinct (map key (pgsp_hash (table_when_locked h LW_EXCLUSIVE s)))"
  shows "\<exists>s'. pg_shared_plans_reset_internal h uid db qid s = Inr s' \<and>
           pgsp_hash s' =
             filter (\<lambda>e. \<not> ((uid \<noteq> 0 \<longrightarrow> userid (key e) = uid) \<and>
                             (db \<noteq> 0 \<longrightarrow> dbid (key e) = db) \<and>
                             (qid \<noteq> 0 \<longrightarrow> queryid (key e) = qid)))
               (pgsp_hash (table_when_locked h LW_EXCLUSIVE s)) \<and>
           (uid = 0 \<and> db = 0 \<and> qid = 0 \<longrightarrow>
              pgsp_hash s' = [] \<and> dealloc s' = 0 \<and> stats_reset s' = GetCurrentTimestamp h)"
proof -
  let ?t = "table_when_locked h LW_EXCLUSIVE s"
  obtain s1 where b: "bind_result (pgsp_attach_dsa h s) (LWLockAcquire h LW_EXCLUSIVE) = Inr s1"
    and l1: "lock s1 = Some LW_EXCLUSIVE" and t: "?t = s1"
    using attach_then_acquire [OF assms(1), of h LW_EXCLUSIVE] by blast
  have d: "distinct (map key (pgsp_hash s1))" using assms(2) t by simp
  let ?P = "if uid \<noteq> 0 \<or> db \<noteq> 0 \<or> qid \<noteq> 0 then reset_matches uid db qid else (\<lambda>entry. True)"
  let ?s2 = "fst (reset_scan ?P s1)"
  let ?n = "snd (reset_scan ?P s1)"
  let ?s3 = "if int (length (pgsp_hash s1)) = ?n
             then ?s2\<lparr>dealloc := 0, stats_reset := GetCurrentTimestamp h\<rparr> else ?s2"
  have run: "pg_shared_plans_reset_internal h uid db qid s = LWLockRelease ?s3"
    using b
    by (cases "pgsp_attach_dsa h s")
       (auto simp: pg_shared_plans_reset_internal_def bind_result_def Let_def)
  have l3: "lock ?s3 = Some LW_EXCLUSIVE"
    using reset_scan_result [of ?P s1] l1 by simp
  then have res: "pg_shared_plans_reset_internal h uid db qid s = Inr (?s3\<lparr>lock := None\<rparr>)"
    unfolding run by (simp add: LWLockRelease_def)
  have P: "\<And>e. ?P e \<longleftrightarrow> (uid \<noteq> 0 \<longrightarrow> userid (key e) = uid) \<and>
                    (db \<noteq> 0 \<longrightarrow> dbid (key e) = db) \<and> (qid \<noteq> 0 \<longrightarrow> queryid (key e) = qid)"
    by (auto simp: reset_matches_iff)
  have h2: "pgsp_hash ?s2 = filter (\<lambda>e. \<not> ?P e) (pgsp_hash s1)"
    by (rule reset_scan_distinct [OF d])
  have h3: "pgsp_hash (?s3\<lparr>lock := None\<rparr>) =
              filter (\<lambda>e. \<not> ((uid \<noteq> 0 \<longrightarrow> userid (key e) = uid) \<and>
                             (db \<noteq> 0 \<longrightarrow> dbid (key e) = db) \<and>
                             (qid \<noteq> 0 \<longrightarrow> queryid (key e) = qid))) (pgsp_hash s1)"
    using h2 unfolding P by simp
  have all: "uid = 0 \<and> db = 0 \<and> qid = 0 \<longrightarrow>
               pgsp_hash (?s3\<lparr>lock := None\<rparr>) = [] \<and> dealloc (?s3\<lparr>lock := None\<rparr>) = 0 \<and>
               stats_reset (?s3\<lparr>lock := None\<rparr>) = GetCurrentTimestamp h"
  proof
    assume z: "uid = 0 \<and> db = 0 \<and> qid = 0"
    then have "?n = int (length (pgsp_hash s1))"
      using reset_scan_result [of ?P s1] by simp
    then show "pgsp_hash (?s3\<lparr>lock := None\<rparr>) = [] \<and> dealloc (?s3\<lparr>lock := None\<rparr>) = 0 \<and>
               stats_reset (?s3\<lparr>lock := None\<rparr>) = GetCurrentTimestamp h"
      using h3 z by simp
  qed
  show ?thesis
    using res h3 all unfolding t by blast
qed


lemma three_state_locked:
  "table_when_locked example_host LW_EXCLUSIVE three_state =
     three_state\<lparr>lock := Some LW_EXCLUSIVE\<rparr>"
  by (simp add: table_when_locked_def pgsp_attach_dsa_def bind_result_def LWLockAcquire_def
      three_state_def example_state_def example_host_def)

theorem reset_removes_matching_witness:
  "lock three_state = None \<and>
   distinct (map key (pgsp_hash (table_when_locked example_host LW_EXCLUSIVE three_state))) \<and>
   (\<exists>s'. pg_shared_plans_reset_internal example_host 0 0 0 three_state = Inr s' \<and>
         pgsp_hash s' = [] \<and> dealloc s' = 0 \<and> stats_reset s' = 1000) \<and>
   (\<exists>s'. pg_shared_plans_reset_internal example_host 0 0 2 three_state = Inr s' \<and>
         pgsp_hash s' = [example_entry 1 1, example_entry 3 1])"
proof -
  have l: "lock three_state = None"
    by (simp add: three_state_def example_state_def)
  have d: "distinct (map key (pgsp_hash (table_when_locked example_host LW_EXCLUSIVE
             three_state)))"
    by (simp add: three_state_locked)
       (simp add: three_state_def example_state_def example_entry_def example_key_def)
  have a: "\<exists>s'. pg_shared_plans_reset_internal example_host 0 0 0 three_state = Inr s' \<and>
             pgsp_hash s' = [] \<and> dealloc s' = 0 \<and> stats_reset s' = 1000"
    using reset_removes_matching [OF l d, of 0 0 0] by (auto simp: example_host_def)
  have b: "\<exists>s'. pg_shared_plans_reset_internal example_host 0 0 2 three_state = Inr s' \<and>
             pgsp_hash s' = [example_entry 1 1, example_entry 3 1]"
    using reset_removes_matching [OF l d, of 0 0 2]
    by (auto simp: three_state_locked)
       (simp add: three_state_def example_state_def example_entry_def example_key_def)
  show ?thesis using l d a b by blast
qed

section \<open>The planner hook\<close>

lemma lock_table_when_locked [simp]:
  "lock s = None \<Longrightarrow> lock (table_when_locked h m s) = Some m"
  by (simp add: table_when_locked_def pgsp_attach_dsa_def bind_result_def LWLockAcquire_def
      LWLockRelease_def)

lemma hook_reaches_lookup:
  assumes "reaches_cache g h parse boundParams" and "lock s = None"
  shows "pgsp_planner_hook g h parse boundParams ms s =
           hook_lookup g h parse boundParams ms (hook_key g h parse)
             (walker_num_const (snd (query_walker h parse))) (table_when_locked h LW_SHARED s)"
  using assms
  by (cases "query_walker h parse")
     (auto simp: pgsp_planner_hook_def reaches_cache_def hook_key_def table_when_locked_def
        pgsp_attach_dsa_def bind_result_def LWLockAcquire_def LWLockRelease_def Let_def)

lemma hook_lookup_miss:
  assumes "misses k t" and "lock t = Some m"
  shows "hook_lookup g h parse boundParams ms k nc t =
           hook_plan g h parse boundParams ms k nc True False (t\<lparr>lock := None\<rparr>)"
  using assms
  by (auto simp: hook_lookup_def misses_def bind_result_def LWLockRelease_def Let_def
      split: option.splits)


lemma hook_plan_returns_planned:
  "hook_plan g h parse bp ms k nc ne acc s = Inr (t, p, s') \<Longrightarrow> t = Planned"
  by (auto simp: hook_plan_def Let_def bind_result_def split: if_splits sum.splits)

lemma free_plan_lock:
  "free_plan ok c s = Inr (ok', c', s') \<Longrightarrow> lock s' = None"
  by (auto simp: free_plan_def Let_def bind_result_def LWLockRelease_def split: if_splits)

lemma free_rels_lock:
  "free_rels h ok c k oids nb s = Inr (ok', c', s') \<Longrightarrow> lock s' = None"
  unfolding free_rels_def Let_def by (rule free_plan_lock)

lemma free_invals_lock:
  "free_invals h ok c k oids nb items nbi s = Inr (ok', c', s') \<Longrightarrow> lock s' = None"
  unfolding free_invals_def Let_def by (rule free_rels_lock)

lemma allocate_plan_locked_lock:
  "allocate_plan_locked g h parse stmt c k oids s = Inr (ok', c', s') \<Longrightarrow> lock s' = None"
  by (auto simp: allocate_plan_locked_def bind_result_def Let_def
      split: sum.splits prod.splits if_splits dest: free_rels_lock free_invals_lock)

lemma allocate_plan_lock:
  "pgsp_allocate_plan g h parse stmt c k s = Inr (ok', c', s') \<Longrightarrow> lock s = None \<Longrightarrow>
   lock s' = None"
  by (auto simp: pgsp_allocate_plan_def Let_def split: prod.splits if_splits
      dest: free_plan_lock allocate_plan_locked_lock)

lemma cache_plan_stores:
  assumes "pgsp_allocate_plan g h parse generic empty_context k s = Inr (True, c, s1)"
    and "lock s = None" and "1 \<le> pgsp_max g"
  shows "\<exists>s'. pgsp_cache_plan g h parse custom generic k pt nc s = Inr s' \<and>
              hash_search_find k s' \<noteq> None"
proof -
  have l1: "lock s1 = None" using allocate_plan_lock [OF assms(1,2)] .
  let ?s2 = "(others h s1)\<lparr>lock := Some LW_EXCLUSIVE, pgsp_ro := pgsp_ro s1,
                             attached := attached s1\<rparr>"
  have a: "LWLockAcquire h LW_EXCLUSIVE s1 = Inr ?s2"
    using l1 by (simp add: LWLockAcquire_def)
  obtain s3 c' where e: "pgsp_entry_alloc g h k c pt nc (pgsp_cached_plan_cost h custom True)
                           (pgsp_cached_plan_cost h generic False) ?s2 = Some (s3, c')"
    and f: "hash_search_find k s3 \<noteq> None" and l3: "lock s3 = lock ?s2"
    using wc_entry_alloc [OF assms(3), of h k c pt nc _ _ ?s2] by blast
  have "pgsp_cache_plan g h parse custom generic k pt nc s = Inr (s3\<lparr>lock := None\<rparr>)"
    using assms(1) a e l3
    by (simp add: pgsp_cache_plan_def bind_result_def LWLockRelease_def)
  moreover have "hash_search_find k (s3\<lparr>lock := None\<rparr>) \<noteq> None"
    using f by (simp add: hash_search_find_def)
  ultimately show ?thesis by blast
qed

lemmas hook_eval =
  pgsp_planner_hook_def pgsp_attach_dsa_def bind_result_def LWLockAcquire_def LWLockRelease_def
  hook_lookup_def hash_search_find_def hook_plan_def pgsp_cache_plan_def pgsp_allocate_plan_def
  empty_context_def dsa_allocate_extended_def dsa_used_def InvalidDsaPointer_def InvalidOid_def
  PGSP_USEDSMEM_def plan_relations_def list_append_unique_oid_def sizeof_Oid_def
  allocate_plan_locked_def oid_array_def dsa_get_address_def pgsp_entry_register_rdepend_def
  Let_def free_invals_def free_rels_def free_plan_def pgsp_entry_alloc_def
  pgsp_choose_cache_plan_def store_entry_def pgsp_accum_custom_plan_def plan_string_def
  adjust_cost_def PLANCACHE_THRESHOLD_def wrap_int32_def

lemmas example_defs =
  example_gucs_def example_host_def example_query_def example_state_def example_entry_def
  example_key_def example_plan_def example_area_def cached_state_def stocked_state_def
  cached_entry_def ASSUMED_MEDIAN_INIT_def debug_host_def debug_gucs_def popular_entry_def
  threshold5_gucs_def disable_gucs_def cheap_plan_def cheap_plan_host_def example_context_def

lemmas alloc_eval =
  entry_alloc_body_def alloc_attach_def alloc_free_plan_def alloc_update_rdepend_def
  alloc_free_arrays_def init_entry_def transfer_plan_def transfer_rels_def transfer_rdeps_def
  free_release_def PGSP_FREEDSMEM_def PGSP_USAGE_INIT_def

lemma hook_at_min_plantime:
  "pgsp_planner_hook example_gucs example_host example_query True 10 (example_state []) =
     Inr (Planned, example_plan, cached_state (cached_entry\<lparr>plantime := 10\<rparr>))"
  apply (simp add: hook_eval example_defs)
  apply (subst make_space.simps)
  apply (simp add: hook_eval alloc_eval)
  done

lemma hook_below_min_plantime:
  "pgsp_planner_hook example_gucs example_host example_query True 5 (example_state []) =
     Inr (Planned, example_plan, example_state [])"
  by (simp add: hook_eval example_defs)

lemma hook_debug_build:
  "pgsp_planner_hook debug_gucs debug_host example_query False 5 (cached_state cached_entry) =
     Inr (Planned, example_plan,
          cached_state (cached_entry\<lparr>usage := 21, total_custom_cost := 200,
                                      num_custom_plans := 2\<rparr>))"
  by (simp add: hook_eval example_defs)

lemma hook_threshold5:
  "pgsp_planner_hook threshold5_gucs example_host example_query True 5
     (cached_state popular_entry) =
     Inr (CachedPlan, example_plan, cached_state (popular_entry\<lparr>bypass := 1, usage := 21\<rparr>))"
  by (simp add: hook_eval example_defs)

lemma hook_cheap_plan:
  "pgsp_planner_hook example_gucs cheap_plan_host example_query True 5
     (cached_state popular_entry) =
     Inr (CachedPlan, cheap_plan\<lparr>total_cost := 0.0005\<rparr>,
          cached_state (popular_entry\<lparr>bypass := 1, usage := 21\<rparr>))"
  by (simp add: hook_eval example_defs)

lemma allocate_plan_example:
  "pgsp_allocate_plan example_gucs example_host example_query example_plan empty_context
     \<lparr>userid = 0, dbid = 1, queryid = 42, constid = 0\<rparr> (example_state []) =
     Inr (True, example_context, stocked_state [])"
  by (simp add: hook_eval example_defs)


lemma choose_keeps_plan [simp]:
  "plan (fst (pgsp_choose_cache_plan th e acc)) = plan e"
  by (simp add: pgsp_choose_cache_plan_def Let_def)

lemma hash_search_find_cong:
  "pgsp_hash s' = pgsp_hash s \<Longrightarrow> hash_search_find k s' = hash_search_find k s"
  by (simp add: hash_search_find_def)

lemma choose_use_cached:
  assumes "pgsp_choose_cache_plan th e acc = (e', True, acc')"
  shows "bypass e' = bypass e + 1 \<and> key e' = key e \<and> plan e' = plan e"
  using assms by (auto simp: pgsp_choose_cache_plan_def Let_def split: if_splits)

lemma hook_lookup_cached_bypass:
  assumes "hook_lookup g h parse bp ms k nc t = Inr (CachedPlan, p, s')"
  shows "\<exists>e e'. hash_search_find k t = Some e \<and> hash_search_find k s' = Some e' \<and>
               (others h = id \<longrightarrow> bypass e' = bypass e + 1) \<and>
               p = adjust_cost g h (wrap_int32 (bypass e'))
                     (stringToNode h (plan_string (pgsp_area t) (plan e)))"
proof (cases "hash_search_find k t")
  case None
  then show ?thesis
    using assms
    by (auto simp: hook_lookup_def bind_result_def split: sum.splits
        dest: hook_plan_returns_planned)
next
  case (Some e)
  obtain e1 uc acc where c: "pgsp_choose_cache_plan (pgsp_threshold g) e False = (e1, uc, acc)"
    by (cases "pgsp_choose_cache_plan (pgsp_threshold g) e False")
  have pl: "plan e \<noteq> InvalidDsaPointer"
    using assms Some
    by (auto simp: hook_lookup_def bind_result_def Let_def split: sum.splits if_splits
        dest: hook_plan_returns_planned)
  have uc: "uc"
    using assms Some c pl
    by (auto simp: hook_lookup_def bind_result_def Let_def split: sum.splits if_splits
        dest: hook_plan_returns_planned)
  note ch = choose_use_cached [OF c [unfolded uc [THEN eqTrueI]]]
  let ?s1 = "store_entry e1 t"
  let ?result = "stringToNode h (plan_string (pgsp_area t) (plan e))"
  from assms Some c pl uc ch obtain s2 s3 s4 e2
    where r1: "LWLockRelease ?s1 = Inr s2"
      and a1: "LWLockAcquire h LW_SHARED s2 = Inr s3"
      and f2: "hash_search_find k s3 = Some e2"
      and r2: "LWLockRelease s3 = Inr s4"
      and res: "p = adjust_cost g h (wrap_int32 (bypass e2)) ?result" and st: "s' = s4"
    by (auto simp: hook_lookup_def bind_result_def Let_def
        split: sum.splits if_splits option.splits dest: hook_plan_returns_planned)
  have h4: "pgsp_hash s4 = pgsp_hash s3"
    using r2 by (auto simp: LWLockRelease_def split: if_splits)
  have f4: "hash_search_find k s' = Some e2"
    unfolding st using f2 hash_search_find_cong [OF h4] by simp
  have byp: "bypass e2 = bypass e + 1" if "others h = id"
  proof -
    have "pgsp_hash s2 = pgsp_hash ?s1"
      using r1 by (auto simp: LWLockRelease_def split: if_splits)
    moreover have "pgsp_hash s3 = pgsp_hash s2"
      using a1 that by (auto simp: LWLockAcquire_def split: if_splits)
    ultimately have "hash_search_find k s3 = hash_search_find k ?s1"
      by (simp add: hash_search_find_def)
    moreover have "key e1 = k" using ch hash_search_find_key [OF Some] by simp
    then have "hash_search_find k ?s1 = Some e1"
      using Some by (intro find_store_entry) simp_all
    ultimately have "e2 = e1" using f2 by simp
    then show ?thesis using ch by simp
  qed
  show ?thesis
    using Some f4 byp res by blast
qed

lemma hook_cached_path_bypass:
  assumes "pgsp_planner_hook g h parse bp ms s = Inr (CachedPlan, p, s')"
  shows "\<exists>e e'. hash_search_find (hook_key g h parse) (table_when_locked h LW_SHARED s) = Some e \<and>
               hash_search_find (hook_key g h parse) s' = Some e' \<and>
               (others h = id \<longrightarrow> bypass e' = bypass e + 1) \<and>
               p = adjust_cost g h (wrap_int32 (bypass e'))
                     (stringToNode h
                        (plan_string (pgsp_area (table_when_locked h LW_SHARED s)) (plan e)))"
proof -
  obtain rej wc where w: "query_walker h parse = (rej, wc)" by (cases "query_walker h parse")
  from assms w obtain s1 s2 where a: "pgsp_attach_dsa h s = Inr s1"
    and l: "LWLockAcquire h LW_SHARED s1 = Inr s2"
    and r: "hook_lookup g h parse bp ms (hook_key g h parse) (walker_num_const wc) s2 =
              Inr (CachedPlan, p, s')"
    by (auto simp: pgsp_planner_hook_def bind_result_def Let_def hook_key_def
        split: sum.splits if_splits)
  have "table_when_locked h LW_SHARED s = s2"
    using a l by (simp add: table_when_locked_def bind_result_def)
  then show ?thesis using hook_lookup_cached_bypass [OF r] by simp
qed


lemma hook_disable_plancache:
  "pgsp_planner_hook disable_gucs example_host example_query True 5
     (cached_state popular_entry) =
     Inr (CachedPlan, example_plan\<lparr>total_cost := - 725.01\<rparr>,
          cached_state (popular_entry\<lparr>bypass := 1, usage := 21\<rparr>))"
  by (simp add: hook_eval example_defs)

lemma example_table_when_locked:
  "(table_when_locked example_host LW_SHARED (example_state []))\<lparr>lock := None\<rparr> =
     example_state []"
  by (simp add: table_when_locked_def hook_eval example_defs)

lemma example_hook_key:
  "hook_key example_gucs example_host example_query =
     \<lparr>userid = 0, dbid = 1, queryid = 42, constid = 0\<rparr>"
  by (simp add: hook_key_def example_defs InvalidOid_def)

text \<open>
  C10 (as amended).  A plan request whose query has a zero \<^verbatim>\<open>queryId\<close>, or that carries a
  utility statement, or that has no bound parameters while the build is not one with
  assertions and \<^verbatim>\<open>cache_regular_statements\<close> on, leaves through the \<^verbatim>\<open>fallback\<close> label:
  what is returned is the host planner's plan, and the whole state (table, arena, reverse
  index, counters) is the one the hook was called in.
\<close>

theorem hook_fallback:
  assumes "queryId parse = 0 \<or> utilityStmt parse \<or>
           (\<not> boundParams \<and> \<not> (USE_ASSERT_CHECKING h \<and> pgsp_cache_all g))"
  shows "pgsp_planner_hook g h parse boundParams ms s =
           Inr (Fallback, planner h parse boundParams, s)"
  using assms by (auto simp: pgsp_planner_hook_def)


theorem hook_fallback_witness:
  "(queryId (example_query\<lparr>queryId := 0\<rparr>) = 0 \<or> utilityStmt (example_query\<lparr>queryId := 0\<rparr>) \<or>
    (\<not> True \<and> \<not> (USE_ASSERT_CHECKING example_host \<and> pgsp_cache_all example_gucs))) \<and>
   pgsp_planner_hook example_gucs example_host (example_query\<lparr>queryId := 0\<rparr>) True 20
     (cached_state cached_entry) = Inr (Fallback, example_plan, cached_state cached_entry) \<and>
   pgsp_planner_hook example_gucs example_host (example_query\<lparr>utilityStmt := True\<rparr>) True 20
     (cached_state cached_entry) = Inr (Fallback, example_plan, cached_state cached_entry) \<and>
   pgsp_planner_hook example_gucs example_host example_query False 20
     (cached_state cached_entry) = Inr (Fallback, example_plan, cached_state cached_entry)"
  using hook_fallback [of "example_query\<lparr>queryId := 0\<rparr>" True example_host example_gucs 20
          "cached_state cached_entry"]
        hook_fallback [of "example_query\<lparr>utilityStmt := True\<rparr>" True example_host
          example_gucs 20 "cached_state cached_entry"]
        hook_fallback [of example_query False example_host example_gucs 20
          "cached_state cached_entry"]
  by (simp add: example_query_def example_host_def example_gucs_def)

text \<open>
  The claim as first stated (no bound parameters always means fallback) fails in a build
  with assertions when \<^verbatim>\<open>cache_regular_statements\<close> is on: the request below has no bound
  parameters, is planned through the cache, and changes the entry's counters.
\<close>

theorem hook_fallback_counterexample:
  "USE_ASSERT_CHECKING debug_host \<and> pgsp_cache_all debug_gucs \<and>
   pgsp_planner_hook debug_gucs debug_host example_query False 5 (cached_state cached_entry) =
     Inr (Planned, example_plan,
          cached_state (cached_entry\<lparr>usage := 21, total_custom_cost := 200,
                                      num_custom_plans := 2\<rparr>)) \<and>
   cached_state (cached_entry\<lparr>usage := 21, total_custom_cost := 200, num_custom_plans := 2\<rparr>)
     \<noteq> cached_state cached_entry"
  by (simp add: hook_debug_build)
     (simp add: example_defs)

text \<open>
  C9 (as amended).  For a request that reaches the lookup and finds no entry, or an entry
  whose plan was discarded: when the measured planning time is below \<^verbatim>\<open>min_plan_time\<close> the
  hook returns the host's plan and leaves the table as it found it; when it is at least
  \<^verbatim>\<open>min_plan_time\<close> the hook tries to cache the plan, and once the plan and its
  dependencies are stored (\<^verbatim>\<open>pgsp_allocate_plan\<close> returns true) the table holds an entry
  for the key.
\<close>

theorem caching_threshold:
  assumes "reaches_cache g h parse boundParams" and "lock s = None"
    and "misses (hook_key g h parse) (table_when_locked h LW_SHARED s)"
  shows "(ms < real_of_int (pgsp_min_plantime g) \<longrightarrow>
            pgsp_planner_hook g h parse boundParams ms s =
              Inr (Planned, planner h parse boundParams,
                   (table_when_locked h LW_SHARED s)\<lparr>lock := None\<rparr>)) \<and>
         (real_of_int (pgsp_min_plantime g) \<le> ms \<and> 1 \<le> pgsp_max g \<and>
          pgsp_allocate_plan g h parse (standard_planner h parse False) empty_context
            (hook_key g h parse) ((table_when_locked h LW_SHARED s)\<lparr>lock := None\<rparr>) =
            Inr (True, c, s1) \<longrightarrow>
            (\<exists>s'. pgsp_planner_hook g h parse boundParams ms s =
                     Inr (Planned, planner h parse boundParams, s') \<and>
                   hash_search_find (hook_key g h parse) s' \<noteq> None))"
proof -
  let ?t = "table_when_locked h LW_SHARED s"
  let ?k = "hook_key g h parse"
  let ?nc = "walker_num_const (snd (query_walker h parse))"
  have lt: "lock ?t = Some LW_SHARED" using assms(2) by simp
  have run: "pgsp_planner_hook g h parse boundParams ms s =
               hook_plan g h parse boundParams ms ?k ?nc True False (?t\<lparr>lock := None\<rparr>)"
    using hook_reaches_lookup [OF assms(1,2)] hook_lookup_miss [OF assms(3) lt] by simp
  show ?thesis
  proof (intro conjI impI)
    assume "ms < real_of_int (pgsp_min_plantime g)"
    then show "pgsp_planner_hook g h parse boundParams ms s =
                 Inr (Planned, planner h parse boundParams, ?t\<lparr>lock := None\<rparr>)"
      unfolding run by (simp add: hook_plan_def Let_def)
  next
    assume a: "real_of_int (pgsp_min_plantime g) \<le> ms \<and> 1 \<le> pgsp_max g \<and>
          pgsp_allocate_plan g h parse (standard_planner h parse False) empty_context
            ?k (?t\<lparr>lock := None\<rparr>) = Inr (True, c, s1)"
    then obtain s' where
      "pgsp_cache_plan g h parse (planner h parse boundParams) (standard_planner h parse False)
         ?k ms ?nc (?t\<lparr>lock := None\<rparr>) = Inr s'"
      and "hash_search_find ?k s' \<noteq> None"
      using cache_plan_stores [of g h parse "standard_planner h parse False" ?k
              "?t\<lparr>lock := None\<rparr>" c s1 "planner h parse boundParams" ms ?nc]
      by auto
    then show "\<exists>s'. pgsp_planner_hook g h parse boundParams ms s =
                     Inr (Planned, planner h parse boundParams, s') \<and>
                   hash_search_find ?k s' \<noteq> None"
      unfolding run using a by (simp add: hook_plan_def Let_def bind_result_def)
  qed
qed



theorem caching_threshold_witness:
  "reaches_cache example_gucs example_host example_query True \<and>
   lock (example_state []) = None \<and>
   misses (hook_key example_gucs example_host example_query)
     (table_when_locked example_host LW_SHARED (example_state [])) \<and>
   (5 :: real) < real_of_int (pgsp_min_plantime example_gucs) \<and>
   pgsp_planner_hook example_gucs example_host example_query True 5 (example_state []) =
     Inr (Planned, planner example_host example_query True, example_state []) \<and>
   real_of_int (pgsp_min_plantime example_gucs) \<le> 10 \<and> 1 \<le> pgsp_max example_gucs \<and>
   pgsp_allocate_plan example_gucs example_host example_query
     (standard_planner example_host example_query False) empty_context
     (hook_key example_gucs example_host example_query)
     ((table_when_locked example_host LW_SHARED (example_state []))\<lparr>lock := None\<rparr>) =
     Inr (True, example_context, stocked_state []) \<and>
   (\<exists>s'. pgsp_planner_hook example_gucs example_host example_query True 10 (example_state []) =
           Inr (Planned, planner example_host example_query True, s') \<and>
         hash_search_find (hook_key example_gucs example_host example_query) s' \<noteq> None)"
proof -
  have r: "reaches_cache example_gucs example_host example_query True"
    by (simp add: reaches_cache_def example_defs)
  have l: "lock (example_state []) = None"
    by (simp add: example_state_def)
  have m: "misses (hook_key example_gucs example_host example_query)
             (table_when_locked example_host LW_SHARED (example_state []))"
    by (simp add: misses_def table_when_locked_def hook_eval example_defs)
  have a: "pgsp_allocate_plan example_gucs example_host example_query
     (standard_planner example_host example_query False) empty_context
     (hook_key example_gucs example_host example_query)
     ((table_when_locked example_host LW_SHARED (example_state []))\<lparr>lock := None\<rparr>) =
     Inr (True, example_context, stocked_state [])"
    unfolding example_table_when_locked example_hook_key
    using allocate_plan_example by (simp add: example_host_def)
  have g: "(5 :: real) < real_of_int (pgsp_min_plantime example_gucs)"
          "real_of_int (pgsp_min_plantime example_gucs) \<le> 10" "1 \<le> pgsp_max example_gucs"
    by (simp_all add: example_gucs_def)
  note t5 = caching_threshold [OF r l m, of 5 example_context "stocked_state []"]
  note t10 = caching_threshold [OF r l m, of 10 example_context "stocked_state []"]
  have b: "pgsp_planner_hook example_gucs example_host example_query True 5 (example_state []) =
             Inr (Planned, planner example_host example_query True, example_state [])"
    using t5 [THEN conjunct1] g(1) unfolding example_table_when_locked by blast
  have c: "\<exists>s'. pgsp_planner_hook example_gucs example_host example_query True 10
                   (example_state []) =
                 Inr (Planned, planner example_host example_query True, s') \<and>
               hash_search_find (hook_key example_gucs example_host example_query) s' \<noteq> None"
    using t10 [THEN conjunct2] g(2,3) a by blast
  show ?thesis using r l m g a b c by blast
qed

text \<open>
  The claim as first stated (a planning time equal to \<^verbatim>\<open>min_plan_time\<close> is not cached)
  fails: with \<^verbatim>\<open>min_plan_time = 10\<close>, a request planned in exactly 10 ms on an empty table
  creates the entry.
\<close>

theorem caching_threshold_counterexample:
  "real_of_int (pgsp_min_plantime example_gucs) = 10 \<and> pgsp_hash (example_state []) = [] \<and>
   pgsp_planner_hook example_gucs example_host example_query True 10 (example_state []) =
     Inr (Planned, example_plan, cached_state (cached_entry\<lparr>plantime := 10\<rparr>)) \<and>
   pgsp_hash (cached_state (cached_entry\<lparr>plantime := 10\<rparr>)) = [cached_entry\<lparr>plantime := 10\<rparr>]"
  by (simp add: hook_at_min_plantime)
     (simp add: example_gucs_def example_state_def cached_state_def stocked_state_def)

text \<open>
  C7 (as amended).  When the hook returns a cached plan, the plan is the stored one with
  its range table untouched and only its total cost changed.  With \<^verbatim>\<open>threshold\<close> equal to
  \<^verbatim>\<open>PLANCACHE_THRESHOLD\<close> (5) the plan is returned as it is.  With \<^verbatim>\<open>threshold\<close> below 5
  and \<^verbatim>\<open>disable_plan_cache\<close> off, the cost is reduced by
  \<open>diff = 1000 \<sqdot> cpu_operator_cost \<sqdot> (n_rels + 1) \<sqdot> 5 / (5 - threshold) + 0.01\<close>, and a result
  that is zero or negative is replaced by 0.001, so the returned cost is positive.  With
  \<^verbatim>\<open>disable_plan_cache\<close> on, the reduction is twice the cost once the entry's bypass count
  exceeds \<open>5 - threshold\<close>, and \<open>diff\<close> plus \<open>2 \<sqdot> threshold\<close> times the cost before that.  The
  bypass count is the entry's counter as the hook leaves it, read as a 32-bit \<^verbatim>\<open>int\<close>;
  when no other backend changed the table in between, it is one more than at the lookup.
\<close>

theorem cost_bias:
  assumes "pgsp_planner_hook g h parse boundParams ms s = Inr (CachedPlan, p, s')"
  shows "\<exists>e e'. hash_search_find (hook_key g h parse) (table_when_locked h LW_SHARED s) = Some e \<and>
           hash_search_find (hook_key g h parse) s' = Some e' \<and>
           (others h = id \<longrightarrow> bypass e' = bypass e + 1) \<and>
           (let p0 = stringToNode h
                       (plan_string (pgsp_area (table_when_locked h LW_SHARED s)) (plan e));
                diff = (1000 * cpu_operator_cost h * real (length (rtable p) + 1) * 5) /
                       real_of_int (5 - pgsp_threshold g) + 0.01;
                b = wrap_int32 (bypass e')
            in rtable p = rtable p0 \<and> invalItems p = invalItems p0 \<and>
               (pgsp_threshold g \<ge> 5 \<longrightarrow> p = p0) \<and>
               (pgsp_threshold g < 5 \<and> \<not> pgsp_disable_plancache g \<longrightarrow>
                  total_cost p = (if total_cost p0 - diff \<le> 0 then 0.001
                                  else total_cost p0 - diff) \<and>
                  0 < total_cost p) \<and>
               (pgsp_threshold g < 5 \<and> pgsp_disable_plancache g \<longrightarrow>
                  total_cost p =
                    total_cost p0 -
                    (if b > 5 - pgsp_threshold g then total_cost p0 * 2
                     else diff + total_cost p0 * 2 * real_of_int (pgsp_threshold g))))"
proof -
  obtain e e' where f: "hash_search_find (hook_key g h parse)
                         (table_when_locked h LW_SHARED s) = Some e"
    and f': "hash_search_find (hook_key g h parse) s' = Some e'"
    and b: "others h = id \<longrightarrow> bypass e' = bypass e + 1"
    and p: "p = adjust_cost g h (wrap_int32 (bypass e'))
                  (stringToNode h
                     (plan_string (pgsp_area (table_when_locked h LW_SHARED s)) (plan e)))"
    using hook_cached_path_bypass [OF assms] by blast
  have "let p0 = stringToNode h
                       (plan_string (pgsp_area (table_when_locked h LW_SHARED s)) (plan e));
                diff = (1000 * cpu_operator_cost h * real (length (rtable p) + 1) * 5) /
                       real_of_int (5 - pgsp_threshold g) + 0.01;
                b = wrap_int32 (bypass e')
            in rtable p = rtable p0 \<and> invalItems p = invalItems p0 \<and>
               (pgsp_threshold g \<ge> 5 \<longrightarrow> p = p0) \<and>
               (pgsp_threshold g < 5 \<and> \<not> pgsp_disable_plancache g \<longrightarrow>
                  total_cost p = (if total_cost p0 - diff \<le> 0 then 0.001
                                  else total_cost p0 - diff) \<and>
                  0 < total_cost p) \<and>
               (pgsp_threshold g < 5 \<and> pgsp_disable_plancache g \<longrightarrow>
                  total_cost p =
                    total_cost p0 -
                    (if b > 5 - pgsp_threshold g then total_cost p0 * 2
                     else diff + total_cost p0 * 2 * real_of_int (pgsp_threshold g)))"
    unfolding p by (auto simp: adjust_cost_def Let_def PLANCACHE_THRESHOLD_def)
  with f f' b show ?thesis by blast
qed

lemma hook_disable_plancache_bypassed:
  "pgsp_planner_hook disable_gucs example_host example_query True 5
     (cached_state (popular_entry\<lparr>bypass := 1\<rparr>)) =
     Inr (CachedPlan, example_plan\<lparr>total_cost := - 100\<rparr>,
          cached_state (popular_entry\<lparr>bypass := 2, usage := 21\<rparr>))"
  by (simp add: hook_eval example_defs)

theorem cost_bias_witness:
  "pgsp_planner_hook example_gucs cheap_plan_host example_query True 5
     (cached_state popular_entry) =
     Inr (CachedPlan, cheap_plan\<lparr>total_cost := 0.0005\<rparr>,
          cached_state (popular_entry\<lparr>bypass := 1, usage := 21\<rparr>)) \<and>
   pgsp_threshold example_gucs < 5 \<and> \<not> pgsp_disable_plancache example_gucs \<and>
   others cheap_plan_host = id \<and>
   (\<exists>e e'. hash_search_find (hook_key example_gucs cheap_plan_host example_query)
             (table_when_locked cheap_plan_host LW_SHARED (cached_state popular_entry)) = Some e \<and>
           hash_search_find (hook_key example_gucs cheap_plan_host example_query)
             (cached_state (popular_entry\<lparr>bypass := 1, usage := 21\<rparr>)) = Some e' \<and>
           bypass e' = bypass e + 1) \<and>
   0 < total_cost (cheap_plan\<lparr>total_cost := 0.0005\<rparr>) \<and>
   pgsp_planner_hook disable_gucs example_host example_query True 5
     (cached_state (popular_entry\<lparr>bypass := 1\<rparr>)) =
     Inr (CachedPlan, example_plan\<lparr>total_cost := - 100\<rparr>,
          cached_state (popular_entry\<lparr>bypass := 2, usage := 21\<rparr>)) \<and>
   pgsp_threshold disable_gucs < 5 \<and> pgsp_disable_plancache disable_gucs \<and>
   others example_host = id \<and>
   (\<exists>e e'. hash_search_find (hook_key disable_gucs example_host example_query)
             (table_when_locked example_host LW_SHARED
                (cached_state (popular_entry\<lparr>bypass := 1\<rparr>))) = Some e \<and>
           hash_search_find (hook_key disable_gucs example_host example_query)
             (cached_state (popular_entry\<lparr>bypass := 2, usage := 21\<rparr>)) = Some e' \<and>
           bypass e' = bypass e + 1 \<and> 5 - pgsp_threshold disable_gucs < wrap_int32 (bypass e'))"
proof -
  have g: "pgsp_threshold example_gucs < 5" "\<not> pgsp_disable_plancache example_gucs"
    "others cheap_plan_host = id"
    by (simp_all add: example_gucs_def cheap_plan_host_def example_host_def)
  have g': "pgsp_threshold disable_gucs < 5" "pgsp_disable_plancache disable_gucs"
    "others example_host = id"
    by (simp_all add: disable_gucs_def example_gucs_def example_host_def)
  from cost_bias [OF hook_cheap_plan]
  have a: "\<exists>e e'. hash_search_find (hook_key example_gucs cheap_plan_host example_query)
             (table_when_locked cheap_plan_host LW_SHARED (cached_state popular_entry)) = Some e \<and>
           hash_search_find (hook_key example_gucs cheap_plan_host example_query)
             (cached_state (popular_entry\<lparr>bypass := 1, usage := 21\<rparr>)) = Some e' \<and>
           bypass e' = bypass e + 1"
    and b: "0 < total_cost (cheap_plan\<lparr>total_cost := 0.0005\<rparr>)"
    using g by (auto simp: Let_def)
  obtain e e' where
    f: "hash_search_find (hook_key disable_gucs example_host example_query)
             (table_when_locked example_host LW_SHARED
                (cached_state (popular_entry\<lparr>bypass := 1\<rparr>))) = Some e"
    and f': "hash_search_find (hook_key disable_gucs example_host example_query)
             (cached_state (popular_entry\<lparr>bypass := 2, usage := 21\<rparr>)) = Some e'"
    and by1: "bypass e' = bypass e + 1"
    using cost_bias [OF hook_disable_plancache_bypassed] g' by auto
  have "e' = popular_entry\<lparr>bypass := 2, usage := 21\<rparr>"
    using f' by (simp add: hash_search_find_def cached_state_def stocked_state_def
        split: if_splits)
  then have "5 - pgsp_threshold disable_gucs < wrap_int32 (bypass e')"
    by (simp add: disable_gucs_def example_gucs_def wrap_int32_def)
  then have c: "\<exists>e e'. hash_search_find (hook_key disable_gucs example_host example_query)
             (table_when_locked example_host LW_SHARED
                (cached_state (popular_entry\<lparr>bypass := 1\<rparr>))) = Some e \<and>
           hash_search_find (hook_key disable_gucs example_host example_query)
             (cached_state (popular_entry\<lparr>bypass := 2, usage := 21\<rparr>)) = Some e' \<and>
           bypass e' = bypass e + 1 \<and> 5 - pgsp_threshold disable_gucs < wrap_int32 (bypass e')"
    using f f' by1 by blast
  show ?thesis
    by (intro conjI hook_cheap_plan g a b hook_disable_plancache_bypassed g' c)
qed

text \<open>
  The claim as first stated fails in three places.  With \<^verbatim>\<open>threshold = 5\<close> the cached plan
  comes back with the cost 100 it was stored with.  With \<^verbatim>\<open>threshold = 4\<close>, a stored cost
  of 25.0105 and one range-table entry, \<open>diff\<close> is 25.01 and the returned cost is 0.0005,
  below 0.001.  With \<^verbatim>\<open>disable_plan_cache\<close> on and a stored cost of 100, the cost returned
  is \<open>- 725.01\<close>, not \<open>100 - 25.01\<close>.
\<close>

theorem cost_bias_counterexample:
  "pgsp_planner_hook threshold5_gucs example_host example_query True 5
     (cached_state popular_entry) =
     Inr (CachedPlan, example_plan, cached_state (popular_entry\<lparr>bypass := 1, usage := 21\<rparr>)) \<and>
   stringToNode example_host ''PLAN'' = example_plan \<and> total_cost example_plan = 100 \<and>
   pgsp_planner_hook example_gucs cheap_plan_host example_query True 5
     (cached_state popular_entry) =
     Inr (CachedPlan, cheap_plan\<lparr>total_cost := 0.0005\<rparr>,
          cached_state (popular_entry\<lparr>bypass := 1, usage := 21\<rparr>)) \<and>
   \<not> pgsp_disable_plancache example_gucs \<and>
   total_cost (cheap_plan\<lparr>total_cost := 0.0005\<rparr>) < 0.001 \<and>
   pgsp_planner_hook disable_gucs example_host example_query True 5
     (cached_state popular_entry) =
     Inr (CachedPlan, example_plan\<lparr>total_cost := - 725.01\<rparr>,
          cached_state (popular_entry\<lparr>bypass := 1, usage := 21\<rparr>))"
  by (simp add: hook_threshold5 hook_cheap_plan hook_disable_plancache)
     (simp add: example_defs)

section \<open>The utility hook\<close>

text \<open>
  A statement of the LOCK class leaves \<^verbatim>\<open>pgsp_utility_pre_exec\<close> with one list of relations
  under the kind \<^verbatim>\<open>PGSP_DISCARD_AND_LOCK\<close>.  The lemmas below follow
  \<^verbatim>\<open>pgsp_utility_do_lock\<close> over this list: what each pass of \<^verbatim>\<open>pgsp_evict_by_oid\<close> leaves
  alone, the trace of the two passes, and what they do to \<^verbatim>\<open>lockers\<close>.
\<close>

lemma evict_entry_frame [simp]:
  "lock (evict_entry kind rk s) = lock s"
  "pgsp_ro (evict_entry kind rk s) = pgsp_ro s"
  "attached (evict_entry kind rk s) = attached s"
  by (simp_all add: evict_entry_def Let_def split: option.splits)

lemma fold_evict_entry_frame [simp]:
  "lock (fold (evict_entry kind) rks s) = lock s"
  "pgsp_ro (fold (evict_entry kind) rks s) = pgsp_ro s"
  "attached (fold (evict_entry kind) rks s) = attached s"
  by (induction rks arbitrary: s; simp)+



lemma filter_is_lock_event_evictions [simp]:
  "filter is_lock_event (map (\<lambda>obj. Evicted kind cls obj m) objs) = []"
  by (induction objs) simp_all

lemma filter_is_eviction_evictions [simp]:
  "filter is_eviction (map (\<lambda>obj. Evicted kind cls obj m) objs) =
     map (\<lambda>obj. Evicted kind cls obj m) objs"
  by (induction objs) simp_all

lemma utility_states_append [simp]:
  "utility_states (evs @ evs') = utility_states evs @ utility_states evs'"
  by (induction evs rule: utility_states.induct) simp_all

lemma utility_states_evictions [simp]:
  "utility_states (map (\<lambda>obj. Evicted kind cls obj m) objs) = []"
  by (induction objs) simp_all




lemma post_scan_lock_only:
  "post_scan h [((PGSP_DISCARD_AND_LOCK, cls), objs)] acc = Inr acc"
  by simp











lemma key_lockers_cong:
  "pgsp_hash s' = pgsp_hash s \<Longrightarrow> key_lockers s' = key_lockers s"
  by (simp add: key_lockers_def)

















section \<open>Failure while a plan is stored\<close>

text \<open>
  C4.  The arena has room for the serialized plan (5 bytes) and not for the array of its
  one relation (4 more bytes).  \<^verbatim>\<open>pgsp_allocate_plan\<close> allocates the plan, fails to allocate
  the array and jumps to \<^verbatim>\<open>free_plan\<close>; there the plan is freed and its bytes are given
  back, and then \<^verbatim>\<open>LWLockRelease(pgsp->lock)\<close> is called although the lock was never
  taken, which raises an error.
\<close>

theorem allocate_plan_rels_oom:
  "dsa_allocate_extended (pgsp_area tight_state) 5 (PlanBlob ''PLAN'') =
     (\<lparr>cells = [(1, 5, PlanBlob ''PLAN'')], next_pointer = 1, capacity = 8\<rparr>, 1) \<and>
   snd (dsa_allocate_extended
          \<lparr>cells = [(1, 5, PlanBlob ''PLAN'')], next_pointer = 1, capacity = 8\<rparr>
          (sizeof_Oid * 1) (OidArray [16384])) = InvalidDsaPointer \<and>
   lock tight_state = None \<and>
   pgsp_allocate_plan example_gucs example_host example_query example_plan empty_context
     (hook_key example_gucs example_host example_query) tight_state =
     Inl (LockNotHeld, state_after_unwind) \<and>
   alloced_size state_after_unwind = alloced_size tight_state"
  by (simp add: tight_state_def state_after_unwind_def hook_key_def hook_eval example_defs
      alloc_eval dsa_free_def)

text \<open>The planner hook passes the error on.\<close>

lemma hook_rels_oom:
  "pgsp_planner_hook example_gucs example_host example_query True 20 tight_state =
     Inl (LockNotHeld, state_after_unwind)"
  by (simp add: tight_state_def state_after_unwind_def hook_key_def hook_eval example_defs
      alloc_eval dsa_free_def)

end
